(* ===== verification/Prelude.thy ===== *)
theory Prelude
  imports Main
begin

text \<open>
  Shared vocabulary of the development of the warehouse service \<open>src/server.py\<close>:
  the identifier types of the relational store, the Python exceptions that escape a
  Flask handler (and become an HTTP 500 response), the collections of simplification
  rules the component theories fill, and generic lemmas on maps and pairs.
\<close>

type_synonym wid = int  \<comment> \<open>a \<open>Warehouse.id\<close>\<close>
type_synonym pid = int  \<comment> \<open>a \<open>Product.id\<close>\<close>
type_synonym sid = int  \<comment> \<open>a \<open>Supplier.id\<close>\<close>

text \<open>
  Python exceptions raised in the handlers. Flask turns each one a handler does not
  catch into a 500 response; the writes already committed by earlier gateway calls stay
  in the store. \<open>ProgrammingError\<close> is the \<open>sqlite3.Error\<close> raised for a parameter of
  a type \<open>sqlite3\<close> cannot bind (\<open>InterfaceError\<close> before Python 3.11); the others are
  the built-in exceptions of their names (\<open>JSONDecodeError\<close> is \<open>json\<close>'s;
  \<open>ValueError\<close> is the one \<open>int\<close> raises for a numeral of more than 4300 digits).
\<close>

datatype py_exc = KeyError | ZeroDivisionError | OverflowError | AttributeError | TypeError
  | JSONDecodeError | ProgrammingError | UnicodeEncodeError | IndexError | ValueError

named_theorems gateway_simps \<open>effect of one SQL statement of the gateway on the store\<close>
named_theorems frame_simps \<open>what a statement of the gateway leaves unchanged\<close>
named_theorems eval_simps \<open>unfolding rules that evaluate the model on concrete data by simp\<close>

subsection \<open>Generic lemmas\<close>

lemma map_option_upd_other [simp]:
  "k' \<noteq> k \<Longrightarrow> (m(k := map_option f (m k))) k' = m k'"
  by simp

lemma pair_neq_fst [intro]: "a \<noteq> a' \<Longrightarrow> (a, b) \<noteq> (a', b')"
  by simp

lemma pair_neq_snd [intro]: "b \<noteq> b' \<Longrightarrow> (a, b) \<noteq> (a', b')"
  by simp

lemma option_case_eq_Inl_cases:
  "(case x of None \<Rightarrow> a | Some y \<Rightarrow> f y) = r \<Longrightarrow>
     (x = None \<Longrightarrow> a = r \<Longrightarrow> P) \<Longrightarrow> (\<And>y. x = Some y \<Longrightarrow> f y = r \<Longrightarrow> P) \<Longrightarrow> P"
  by (cases x) auto

lemma sum_list_map_update:
  "i < length xs \<Longrightarrow> sum_list (map g (xs[i := x])) = sum_list (map g xs) - g (xs ! i) + (g x :: int)"
  by (induction xs arbitrary: i) (auto split: nat.splits)

lemma sum_fun_upd_pair:
  assumes "finite W"
  shows "(\<Sum>w\<in>W. (Q((f, p) := v)) (w, p')) = (\<Sum>w\<in>W. Q (w, p')) + (if f \<in> W \<and> p = p' then v - Q (f, p) else (0::int))"
proof (cases "f \<in> W \<and> p = p'")
  case True
  then have fW: "f \<in> W" and pp: "p' = p" by auto
  have "(\<Sum>w\<in>W. (Q((f, p) := v)) (w, p')) =
      (Q((f, p) := v)) (f, p') + (\<Sum>w\<in>W - {f}. (Q((f, p) := v)) (w, p'))"
    using assms fW by (rule sum.remove)
  also have "(\<Sum>w\<in>W - {f}. (Q((f, p) := v)) (w, p')) = (\<Sum>w\<in>W - {f}. Q (w, p'))"
    by (rule sum.cong) auto
  also have "(\<Sum>w\<in>W - {f}. Q (w, p')) = (\<Sum>w\<in>W. Q (w, p')) - Q (f, p')"
    using assms fW by (simp add: sum.remove)
  finally show ?thesis using True by simp
next
  case False
  then have "(\<Sum>w\<in>W. (Q((f, p) := v)) (w, p')) = (\<Sum>w\<in>W. Q (w, p'))"
    by (intro sum.cong) auto
  with False show ?thesis by auto
qed

end
