(* ===== verification/PyFloat.thy ===== *)
theory PyFloat
  imports Prelude
begin

text \<open>
  Python's float arithmetic as used by the capacity check of \<open>product_transfer\<close>
  (\<open>src/server.py\<close>, line 192): \<open>(current_qty / max_capacity) * 100 > threshold\<close>.
  \<open>int / int\<close> is true division, correctly rounded to an IEEE-754 double (round to
  nearest, ties to even), raising \<open>ZeroDivisionError\<close> for a zero divisor and
  \<open>OverflowError\<close> when the quotient is beyond the largest double; \<open>float * 100\<close>
  rounds the exact product the same way and overflows to infinity; \<open>float > int\<close>
  compares exactly. A finite double is \<open>PFin m e\<close>, the value \<open>m * 2^e\<close>; the
  rounding keeps 53 significant bits and no exponent below \<open>-1074\<close> (subnormals).
\<close>

datatype pyfloat = PFin int int | PInf bool  \<comment> \<open>\<open>PInf True\<close> is \<open>+inf\<close>\<close>

text \<open>Number of binary digits of a natural number (\<open>int.bit_length\<close>).\<close>

fun nbits :: "nat \<Rightarrow> nat" where
  "nbits n = (if n = 0 then 0 else Suc (nbits (n div 2)))"

declare nbits.simps [simp del]

lemma nbits_0 [simp]: "nbits 0 = 0"
  by (simp add: nbits.simps)

lemma nbits_1 [simp]: "nbits (Suc 0) = 1"
  by (simp add: nbits.simps)

lemma nbits_numeral: "nbits (numeral k) = Suc (nbits (numeral k div 2))"
  by (simp add: nbits.simps [of "numeral k"])

text \<open>Integer quotient rounded to nearest, ties to even.\<close>

definition rdiv_even :: "nat \<Rightarrow> nat \<Rightarrow> nat" where
  "rdiv_even x y =
     (let q = x div y; r = x mod y
      in if 2 * r < y then q else if y < 2 * r then Suc q
         else if even q then q else Suc q)"

text \<open>\<open>2^k \<le> n / b\<close>, for an integer exponent \<open>k\<close>.\<close>

definition pow2_le :: "int \<Rightarrow> nat \<Rightarrow> nat \<Rightarrow> bool" where
  "pow2_le k n b = (if 0 \<le> k then b * 2 ^ nat k \<le> n else b \<le> n * 2 ^ nat (- k))"

text \<open>
  The double nearest to \<open>n / b\<close> (\<open>b > 0\<close>), as significand and exponent:
  \<open>lg\<close> is \<open>\<lfloor>log2 (n / b)\<rfloor>\<close>, the exponent keeps 53 bits of significand.
\<close>

definition round_ratio :: "nat \<Rightarrow> nat \<Rightarrow> nat \<times> int" where
  "round_ratio n b =
     (if n = 0 then (0, 0)
      else let k = int (nbits n) - int (nbits b);
               lg = (if pow2_le k n b then k else k - 1);
               e = max (lg - 52) (-1074)
           in (rdiv_even (n * 2 ^ nat (- e)) (b * 2 ^ nat e), e))"

text \<open>A rounded magnitude \<open>m * 2^e\<close> is beyond the double range when it reaches \<open>2^1024\<close>.\<close>

definition too_large :: "nat \<Rightarrow> int \<Rightarrow> bool" where
  "too_large m e = (0 < m \<and> 1024 < int (nbits m) + e)"

text \<open>\<open>a / b\<close> on Python ints.\<close>

definition py_truediv :: "int \<Rightarrow> int \<Rightarrow> py_exc + pyfloat" where
  "py_truediv a b =
     (if b = 0 then Inl ZeroDivisionError
      else let (m, e) = round_ratio (nat \<bar>a\<bar>) (nat \<bar>b\<bar>)
           in if too_large m e then Inl OverflowError
              else Inr (PFin (if (a < 0) = (b < 0) then int m else - int m) e))"

text \<open>\<open>x * c\<close> for a float \<open>x\<close> and a positive int \<open>c\<close> exactly representable as a double.\<close>

fun py_mul_pos :: "pyfloat \<Rightarrow> nat \<Rightarrow> pyfloat" where
  "py_mul_pos (PInf s) c = PInf s"
| "py_mul_pos (PFin m e) c =
     (let (n, b) = (if 0 \<le> e then (nat \<bar>m\<bar> * c * 2 ^ nat e, 1) else (nat \<bar>m\<bar> * c, 2 ^ nat (- e)));
          (m', e') = round_ratio n b
      in if too_large m' e' then PInf (0 \<le> m)
         else PFin (if 0 \<le> m then int m' else - int m') e')"

text \<open>\<open>x > t\<close> for a float \<open>x\<close> and an int \<open>t\<close>: exact.\<close>

fun py_gt_int :: "pyfloat \<Rightarrow> int \<Rightarrow> bool" where
  "py_gt_int (PInf s) t = s"
| "py_gt_int (PFin m e) t =
     (if 0 \<le> e then t < m * 2 ^ nat e else t * 2 ^ nat (- e) < m)"

lemmas [eval_simps] = nbits_numeral rdiv_even_def pow2_le_def round_ratio_def too_large_def
  py_truediv_def Let_def

end
