(* ===== verification/PyValues.thy ===== *)
theory PyValues
  imports PyFloat
begin

text \<open>
  The Python values the handlers of \<open>src/server.py\<close> receive and return, and the way
  \<open>sqlite3\<close> hands them to SQLite. A Python \<open>str\<close> is the list of its code points
  (\<open>ustr\<close>). A JSON document decodes to \<open>pyjson\<close>: \<open>None\<close>, \<open>bool\<close>, \<open>int\<close> (unbounded),
  \<open>float\<close> (a double with its sign, so that \<open>-0.0\<close> and \<open>nan\<close> exist), \<open>str\<close>, \<open>list\<close>
  and \<open>dict\<close> (an association list in insertion order). \<open>py_truthy\<close> is Python's truth
  value, used by the guards \<open>if not x\<close>. \<open>bind_param\<close> is the binding of a parameter of
  \<open>cursor.execute\<close> (\<open>execute_query\<close>, line 19) and \<open>sql_key\<close> the integer a bound value
  equals under SQLite's comparison with an \<open>INTEGER\<close> key column: an integer, a real
  with an integral value, or a text that SQLite's numeric affinity turns into one.
\<close>

type_synonym ustr = "nat list"  \<comment> \<open>a Python \<open>str\<close>, as code points\<close>

definition pystr :: "string \<Rightarrow> ustr" where
  "pystr s = map of_char s"

text \<open>A double: sign, significand and exponent (\<open>(-1)^s * m * 2^e\<close>), infinity, NaN.\<close>

datatype jfloat = JFin bool nat int | JInf bool | JNaN

datatype pyjson =
    JNone
  | JBool bool
  | JInt int
  | JFloat jfloat
  | JStr ustr
  | JList "pyjson list"
  | JDict "(ustr \<times> pyjson) list"

text \<open>\<open>bool(x)\<close>: empty containers, zero numbers, \<open>None\<close> and \<open>False\<close> are false; \<open>nan\<close> is true.\<close>

fun py_truthy :: "pyjson \<Rightarrow> bool" where
  "py_truthy JNone = False"
| "py_truthy (JBool b) = b"
| "py_truthy (JInt i) = (i \<noteq> 0)"
| "py_truthy (JFloat (JFin s m e)) = (m \<noteq> 0)"
| "py_truthy (JFloat (JInf s)) = True"
| "py_truthy (JFloat JNaN) = True"
| "py_truthy (JStr s) = (s \<noteq> [])"
| "py_truthy (JList xs) = (xs \<noteq> [])"
| "py_truthy (JDict d) = (d \<noteq> [])"

text \<open>\<open>d.get(k)\<close>: the value of the key, \<open>None\<close> when it is absent.\<close>

definition dict_get :: "(ustr \<times> pyjson) list \<Rightarrow> ustr \<Rightarrow> pyjson" where
  "dict_get d k = (case map_of d k of None \<Rightarrow> JNone | Some v \<Rightarrow> v)"

subsection \<open>SQL values and parameter binding\<close>

datatype sql_val = SNull | SInt int | SReal jfloat | SText ustr

definition is_surrogate :: "nat \<Rightarrow> bool" where
  "is_surrogate c \<longleftrightarrow> 55296 \<le> c \<and> c \<le> 57343"

text \<open>
  \<open>sqlite3\<close>'s binding of one parameter: \<open>None\<close> is \<open>NULL\<close>, a \<open>bool\<close> is the integer 0
  or 1, an \<open>int\<close> outside the 64-bit range raises \<open>OverflowError\<close>, a \<open>nan\<close> is stored
  as \<open>NULL\<close> by SQLite, a \<open>str\<close> is encoded to UTF-8 (a lone surrogate raises
  \<open>UnicodeEncodeError\<close>), and a \<open>list\<close> or \<open>dict\<close> cannot be bound.
\<close>

fun bind_param :: "pyjson \<Rightarrow> py_exc + sql_val" where
  "bind_param JNone = Inr SNull"
| "bind_param (JBool b) = Inr (SInt (if b then 1 else 0))"
| "bind_param (JInt i) = (if - (2 ^ 63) \<le> i \<and> i < 2 ^ 63 then Inr (SInt i) else Inl OverflowError)"
| "bind_param (JFloat JNaN) = Inr SNull"
| "bind_param (JFloat f) = Inr (SReal f)"
| "bind_param (JStr s) = (if list_ex is_surrogate s then Inl UnicodeEncodeError else Inr (SText s))"
| "bind_param (JList xs) = Inl ProgrammingError"
| "bind_param (JDict d) = Inl ProgrammingError"

text \<open>The \<open>int\<close>s that bind: SQLite's 64-bit \<open>INTEGER\<close> range. A Python \<open>int\<close> outside it
  passed to \<open>cursor.execute\<close> (line 19) raises \<open>OverflowError\<close> before the statement runs.\<close>

definition sqlite_int :: "int \<Rightarrow> bool" where
  "sqlite_int i \<longleftrightarrow> - (2 ^ 63) \<le> i \<and> i < 2 ^ 63"

text \<open>A column value as \<open>dict(row)\<close> gives it to Python.\<close>

fun py_of_sql :: "sql_val \<Rightarrow> pyjson" where
  "py_of_sql SNull = JNone"
| "py_of_sql (SInt i) = JInt i"
| "py_of_sql (SReal f) = JFloat f"
| "py_of_sql (SText t) = JStr t"

subsection \<open>SQLite's numeric affinity on a text\<close>

text \<open>
  \<open>sqlite3AtoF\<close>: optional spaces, a sign, digits with an optional decimal point and
  an optional exponent, optional spaces, nothing else, and at least one digit. The
  result is whether the text is a plain integer, its sign, its digits as a number and
  the power of ten that scales them.
\<close>

definition sq_space :: "nat \<Rightarrow> bool" where
  "sq_space c \<longleftrightarrow> c = 32 \<or> (9 \<le> c \<and> c \<le> 13)"

definition is_digit :: "nat \<Rightarrow> bool" where
  "is_digit c \<longleftrightarrow> 48 \<le> c \<and> c \<le> 57"

definition digits_val :: "nat list \<Rightarrow> nat" where
  "digits_val ds = foldl (\<lambda>a d. 10 * a + (d - 48)) 0 ds"

definition take_sign :: "ustr \<Rightarrow> bool \<times> ustr" where
  "take_sign s = (case s of
      c # r \<Rightarrow> if c = 45 then (True, r) else if c = 43 then (False, r) else (False, s)
    | [] \<Rightarrow> (False, []))"

definition take_fraction :: "ustr \<Rightarrow> nat list \<times> ustr \<times> bool" where
  "take_fraction s = (case s of
      c # r \<Rightarrow> if c = 46 then (takeWhile is_digit r, dropWhile is_digit r, True) else ([], s, False)
    | [] \<Rightarrow> ([], [], False))"

definition take_exponent :: "ustr \<Rightarrow> int \<times> ustr \<times> bool \<times> bool" where
  "take_exponent s = (case s of
      c # r \<Rightarrow>
        if c = 101 \<or> c = 69 then
          (let (eneg, r1) = take_sign r; eds = takeWhile is_digit r1;
               ev = int (digits_val eds)
           in (if eneg then - ev else ev, dropWhile is_digit r1, True, eds \<noteq> []))
        else (0, s, False, True)
    | [] \<Rightarrow> (0, [], False, True))"

definition sql_numeric_text :: "ustr \<Rightarrow> (bool \<times> bool \<times> nat \<times> int) option" where
  "sql_numeric_text t =
     (let (neg, t2) = take_sign (dropWhile sq_space t);
          ds1 = takeWhile is_digit t2;
          (ds2, t4, dot) = take_fraction (dropWhile is_digit t2);
          (ex, t5, hasexp, evalid) = take_exponent t4
      in if dropWhile sq_space t5 = [] \<and> ds1 @ ds2 \<noteq> [] \<and> evalid
         then Some (\<not> dot \<and> \<not> hasexp, neg, digits_val (ds1 @ ds2), ex - int (length ds2))
         else None)"

text \<open>
  The double nearest to \<open>\<plusminus>m * 10^e\<close>. SQLite keeps about nineteen significant digits
  of the text before it rounds; the model rounds the exact value, so the two agree on
  every text of up to nineteen significant digits.
\<close>

definition dec_to_jfloat :: "bool \<Rightarrow> nat \<Rightarrow> int \<Rightarrow> jfloat" where
  "dec_to_jfloat neg m e10 =
     (let (mm, ee) = (if 0 \<le> e10 then round_ratio (m * 10 ^ nat e10) 1
                      else round_ratio m (10 ^ nat (- e10)))
      in if too_large mm ee then JInf neg else JFin neg mm ee)"

definition signed_int :: "bool \<Rightarrow> nat \<Rightarrow> int" where
  "signed_int neg m = (if neg then - int m else int m)"

text \<open>The integer a double equals, if it is integral.\<close>

fun jfloat_int :: "jfloat \<Rightarrow> int option" where
  "jfloat_int (JFin neg m e) =
     (if 0 \<le> e then Some (signed_int neg (m * 2 ^ nat e))
      else if m mod 2 ^ nat (- e) = 0 then Some (signed_int neg (m div 2 ^ nat (- e))) else None)"
| "jfloat_int (JInf s) = None"
| "jfloat_int JNaN = None"

text \<open>
  Numeric affinity (\<open>applyNumericAffinity\<close>): a plain integer text within 64 bits
  becomes that integer, any other numeric text a real; a non-numeric text stays text.
\<close>

definition sql_text_num :: "ustr \<Rightarrow> sql_val" where
  "sql_text_num t =
     (case sql_numeric_text t of
        None \<Rightarrow> SText t
      | Some (pure, neg, m, e10) \<Rightarrow>
          (if pure \<and> - (2 ^ 63) \<le> signed_int neg m \<and> signed_int neg m < 2 ^ 63
           then SInt (signed_int neg m) else SReal (dec_to_jfloat neg m e10)))"

text \<open>\<open>WHERE id = ?\<close> on an integer key: the key the bound value selects, if any.\<close>

fun sql_key :: "sql_val \<Rightarrow> int option" where
  "sql_key SNull = None"
| "sql_key (SInt i) = Some i"
| "sql_key (SReal f) = jfloat_int f"
| "sql_key (SText t) =
     (case sql_text_num t of SInt i \<Rightarrow> Some i | SReal f \<Rightarrow> jfloat_int f | _ \<Rightarrow> None)"

text \<open>\<open>str(k)\<close> of a Python \<open>int\<close>: the text a client sends for an id.\<close>

fun nat_digits :: "nat \<Rightarrow> nat list" where
  "nat_digits n = (if n < 10 then [48 + n] else nat_digits (n div 10) @ [48 + n mod 10])"

declare nat_digits.simps [simp del]

definition int_text :: "int \<Rightarrow> ustr" where
  "int_text k = (if k < 0 then 45 # nat_digits (nat (- k)) else nat_digits (nat k))"

lemmas [eval_simps] = sqlite_int_def nat_digits.simps int_text_def pystr_def dict_get_def is_surrogate_def sq_space_def is_digit_def
  digits_val_def take_sign_def take_fraction_def take_exponent_def sql_numeric_text_def
  dec_to_jfloat_def signed_int_def sql_text_num_def

subsection \<open>The text of an integer selects that integer\<close>

lemma digits_val_snoc: "digits_val (xs @ [d]) = 10 * digits_val xs + (d - 48)"
  by (simp add: digits_val_def)

lemma nat_digits_props:
  "digits_val (nat_digits n) = n \<and> list_all is_digit (nat_digits n) \<and> nat_digits n \<noteq> []"
proof (induction n rule: nat_digits.induct)
  case (1 n)
  show ?case
  proof (cases "n < 10")
    case True
    then show ?thesis by (simp add: nat_digits.simps [of n] digits_val_def is_digit_def)
  next
    case False
    with "1.IH" show ?thesis
      by (simp add: nat_digits.simps [of n] digits_val_snoc is_digit_def)
  qed
qed

lemma takeWhile_all: "list_all P xs \<Longrightarrow> takeWhile P (xs @ ys) = xs @ takeWhile P ys"
  by (induction xs) simp_all

lemma dropWhile_all: "list_all P xs \<Longrightarrow> dropWhile P (xs @ ys) = dropWhile P ys"
  by (induction xs) simp_all

lemma nat_digits_hd: "\<exists>d ds. nat_digits n = d # ds \<and> is_digit d"
  using nat_digits_props [of n] by (cases "nat_digits n") auto

lemma numeric_int_text:
  assumes "list_all sq_space pre" "list_all sq_space post"
  shows "sql_numeric_text (pre @ int_text k @ post) = Some (True, k < 0, nat \<bar>k\<bar>, 0)"
proof -
  obtain d ds where dd: "nat_digits (nat \<bar>k\<bar>) = d # ds" "is_digit d"
    using nat_digits_hd by blast
  have nd: "list_all is_digit (nat_digits (nat \<bar>k\<bar>))" "digits_val (nat_digits (nat \<bar>k\<bar>)) = nat \<bar>k\<bar>"
    using nat_digits_props by blast+
  have ns: "\<not> sq_space d" "d \<noteq> 45" "d \<noteq> 43" using dd(2) by (auto simp: is_digit_def sq_space_def)
  have post: "takeWhile is_digit post = []" "dropWhile is_digit post = post"
    "dropWhile sq_space post = []"
    using assms(2) by (induction post) (auto simp: is_digit_def sq_space_def)
  have tf: "take_fraction post = ([], post, False)"
    using assms(2) by (cases post) (auto simp: take_fraction_def sq_space_def)
  have te: "take_exponent post = (0, post, False, True)"
    using assms(2) by (cases post) (auto simp: take_exponent_def sq_space_def)
  have "take_sign (dropWhile sq_space (pre @ int_text k @ post)) = (k < 0, nat_digits (nat \<bar>k\<bar>) @ post)"
  proof (cases "k < 0")
    case True
    then have "nat \<bar>k\<bar> = nat (- k)" by simp
    with True assms(1) show ?thesis by (simp add: dropWhile_all int_text_def take_sign_def sq_space_def)
  next
    case False
    then have "nat \<bar>k\<bar> = nat k" by simp
    with False assms(1) dd ns show ?thesis by (simp add: dropWhile_all int_text_def take_sign_def)
  qed
  then show ?thesis
    using nd post tf te nat_digits_props [of "nat \<bar>k\<bar>"]
    by (simp add: sql_numeric_text_def takeWhile_all dropWhile_all Let_def)
qed

text \<open>
  The decimal text \<open>str(k)\<close> of a 64-bit integer, with any SQLite
  white space around it, selects exactly the key \<open>k\<close> when it is bound as a query
  parameter and compared with an integer id, as the views do with \<open>warehouse_id\<close>.
\<close>

theorem sql_key_int_text:
  assumes "list_all sq_space pre" "list_all sq_space post" "- (2 ^ 63) \<le> k" "k < 2 ^ 63"
  shows "sql_key (SText (pre @ int_text k @ post)) = Some k"
proof -
  have "signed_int (k < 0) (nat \<bar>k\<bar>) = k" by (simp add: signed_int_def)
  then show ?thesis using assms numeric_int_text [OF assms(1,2)] by (simp add: sql_text_num_def)
qed

lemma bind_param_int: "bind_param (JInt i) = (if sqlite_int i then Inr (SInt i) else Inl OverflowError)"
  by (simp add: sqlite_int_def)

end
