(* ===== verification/Store.thy ===== *)
theory Store
  imports PyValues
begin

text \<open>
  The relational store behind \<open>execute_query\<close> (\<open>src/server.py\<close>, lines 15--20) and the
  SQL statements of the transfer handler, each as one atomic function on the store.
  A table with a unique key is a map from that key: \<open>Warehouse\<close> and \<open>Product\<close> by
  \<open>id\<close>, \<open>Inventory\<close> and \<open>WarehouseCapacity\<close> by \<open>(warehouse_id, product_id)\<close>,
  the \<open>UNIQUE\<close> constraint that \<open>ON CONFLICT(warehouse_id, product_id)\<close> relies on.
  Every call of \<open>execute_query\<close> opens its own connection and commits on exit, so
  each statement is its own transaction: the store after a statement is what every
  later statement, and every later request, sees.
\<close>

datatype inv_status = GOOD_CAPACITY | LOW_CAPACITY

record inv_row =
  quantity :: int
  status :: inv_status

record cap_row =
  max_capacity :: int
  capacity_percentage :: int

text \<open>
  A \<open>PurchaseOrder\<close> row keeps the values bound for its supplier and amount, and its
  warehouse. A \<open>ProductReceipt\<close> row, as its detail view returns it: the columns other
  than \<open>items\<close>, in order, and the \<open>items\<close> column, a serialised JSON text.
\<close>

record po_row =
  po_supplier :: sql_val
  po_total :: sql_val
  po_warehouse :: wid

record receipt_row =
  receipt_cols :: "(ustr \<times> sql_val) list"
  receipt_items :: sql_val

record store =
  warehouse_tbl :: "wid \<rightharpoonup> string"
  product_tbl :: "pid \<rightharpoonup> string"
  supplier_tbl :: "sid list"
  inventory_tbl :: "wid \<times> pid \<rightharpoonup> inv_row"
  capacity_tbl :: "wid \<times> pid \<rightharpoonup> cap_row"
  purchase_order_tbl :: "(int \<times> po_row) list"
  receipt_tbl :: "int \<rightharpoonup> receipt_row"

definition empty_store :: store where
  "empty_store =
     \<lparr>warehouse_tbl = Map.empty, product_tbl = Map.empty, supplier_tbl = [],
      inventory_tbl = Map.empty, capacity_tbl = Map.empty, purchase_order_tbl = [],
      receipt_tbl = Map.empty\<rparr>"

subsection \<open>Statements of the transfer handler\<close>

text \<open>
  \<open>SELECT id, warehouse_name FROM Warehouse WHERE id IN (?, ?)\<close>: each matching row
  once, however often its id is listed.
\<close>

definition select_warehouses_in :: "store \<Rightarrow> wid \<Rightarrow> wid \<Rightarrow> (wid \<times> string) list" where
  "select_warehouses_in st a b =
     List.map_filter (\<lambda>w. map_option (Pair w) (warehouse_tbl st w)) (remdups [a, b])"

text \<open>\<open>SELECT i.quantity, p.product_name FROM Inventory i JOIN Product p ...\<close>\<close>

definition select_source_inventory :: "store \<Rightarrow> wid \<Rightarrow> pid \<Rightarrow> (int \<times> string) option" where
  "select_source_inventory st w p =
     (case inventory_tbl st (w, p) of
        None \<Rightarrow> None
      | Some r \<Rightarrow> map_option (Pair (quantity r)) (product_tbl st p))"

text \<open>\<open>UPDATE Inventory SET quantity = quantity - ? WHERE ...\<close>: no row, no change.\<close>

definition update_quantity_sub :: "store \<Rightarrow> wid \<Rightarrow> pid \<Rightarrow> int \<Rightarrow> store" where
  "update_quantity_sub st w p q =
     st\<lparr>inventory_tbl := (inventory_tbl st)((w, p) :=
        map_option (\<lambda>r. r\<lparr>quantity := quantity r - q\<rparr>) (inventory_tbl st (w, p)))\<rparr>"

text \<open>
  \<open>INSERT ... VALUES (?, ?, ?, 'GOOD_CAPACITY') ON CONFLICT(warehouse_id, product_id)
  DO UPDATE SET quantity = quantity + ?\<close>: the conflict branch keeps the row's status.
\<close>

definition upsert_quantity_add :: "store \<Rightarrow> wid \<Rightarrow> pid \<Rightarrow> int \<Rightarrow> store" where
  "upsert_quantity_add st w p q =
     st\<lparr>inventory_tbl := (inventory_tbl st)((w, p) \<mapsto>
        (case inventory_tbl st (w, p) of
           None \<Rightarrow> \<lparr>quantity = q, status = GOOD_CAPACITY\<rparr>
         | Some r \<Rightarrow> r\<lparr>quantity := quantity r + q\<rparr>))\<rparr>"

text \<open>
  \<open>SELECT i.quantity, wc.max_capacity, wc.capacity_percentage FROM Inventory i JOIN
  WarehouseCapacity wc ...\<close>: a row only when both tables have the pair.
\<close>

definition select_inventory_capacity :: "store \<Rightarrow> wid \<Rightarrow> pid \<Rightarrow> (int \<times> int \<times> int) option" where
  "select_inventory_capacity st w p =
     (case (inventory_tbl st (w, p), capacity_tbl st (w, p)) of
        (Some r, Some c) \<Rightarrow> Some (quantity r, max_capacity c, capacity_percentage c)
      | _ \<Rightarrow> None)"

text \<open>\<open>UPDATE Inventory SET status = ? WHERE ...\<close>\<close>

definition update_status :: "store \<Rightarrow> wid \<Rightarrow> pid \<Rightarrow> inv_status \<Rightarrow> store" where
  "update_status st w p s =
     st\<lparr>inventory_tbl := (inventory_tbl st)((w, p) :=
        map_option (\<lambda>r. r\<lparr>status := s\<rparr>) (inventory_tbl st (w, p)))\<rparr>"

subsection \<open>The quantity view of the store\<close>

text \<open>
  The quantity of a product in a warehouse, \<open>0\<close> where there is no inventory row: the
  abstraction under which the transfer is a movement of stock.
\<close>

definition inv_qty :: "store \<Rightarrow> wid \<times> pid \<Rightarrow> int" where
  "inv_qty st k = (case inventory_tbl st k of None \<Rightarrow> 0 | Some r \<Rightarrow> quantity r)"

text \<open>The data-model invariant of \<open>Inventory\<close>: no quantity is negative.\<close>

definition inv_nonneg :: "store \<Rightarrow> bool" where
  "inv_nonneg st = (\<forall>k \<in> dom (inventory_tbl st). 0 \<le> quantity (the (inventory_tbl st k)))"

subsection \<open>Effects and frames of the statements\<close>

lemma inventory_update_quantity_sub [gateway_simps]:
  "inventory_tbl (update_quantity_sub st w p q) = (inventory_tbl st)((w, p) :=
     map_option (\<lambda>r. r\<lparr>quantity := quantity r - q\<rparr>) (inventory_tbl st (w, p)))"
  by (simp add: update_quantity_sub_def)

lemma inventory_upsert_quantity_add [gateway_simps]:
  "inventory_tbl (upsert_quantity_add st w p q) = (inventory_tbl st)((w, p) \<mapsto>
     (case inventory_tbl st (w, p) of
        None \<Rightarrow> \<lparr>quantity = q, status = GOOD_CAPACITY\<rparr>
      | Some r \<Rightarrow> r\<lparr>quantity := quantity r + q\<rparr>))"
  by (simp add: upsert_quantity_add_def)

lemma inventory_update_status [gateway_simps]:
  "inventory_tbl (update_status st w p s) = (inventory_tbl st)((w, p) :=
     map_option (\<lambda>r. r\<lparr>status := s\<rparr>) (inventory_tbl st (w, p)))"
  by (simp add: update_status_def)

lemma other_tables_update_quantity_sub [frame_simps]:
  "warehouse_tbl (update_quantity_sub st w p q) = warehouse_tbl st"
  "product_tbl (update_quantity_sub st w p q) = product_tbl st"
  "capacity_tbl (update_quantity_sub st w p q) = capacity_tbl st"
  by (simp_all add: update_quantity_sub_def)

lemma other_tables_upsert_quantity_add [frame_simps]:
  "warehouse_tbl (upsert_quantity_add st w p q) = warehouse_tbl st"
  "product_tbl (upsert_quantity_add st w p q) = product_tbl st"
  "capacity_tbl (upsert_quantity_add st w p q) = capacity_tbl st"
  by (simp_all add: upsert_quantity_add_def)

lemma other_tables_update_status [frame_simps]:
  "warehouse_tbl (update_status st w p s) = warehouse_tbl st"
  "product_tbl (update_status st w p s) = product_tbl st"
  "capacity_tbl (update_status st w p s) = capacity_tbl st"
  by (simp_all add: update_status_def)

text \<open>A status update never changes a quantity.\<close>

lemma inv_qty_update_status [simp]: "inv_qty (update_status st w p s) = inv_qty st"
  by (rule ext) (simp add: inv_qty_def gateway_simps split: option.splits)

lemma inv_qty_update_quantity_sub:
  "inventory_tbl st (w, p) \<noteq> None \<Longrightarrow>
     inv_qty (update_quantity_sub st w p q) = (inv_qty st)((w, p) := inv_qty st (w, p) - q)"
  by (rule ext) (auto simp: inv_qty_def gateway_simps)

lemma inv_qty_upsert_quantity_add:
  "inv_qty (upsert_quantity_add st w p q) = (inv_qty st)((w, p) := inv_qty st (w, p) + q)"
  by (rule ext) (auto simp: inv_qty_def gateway_simps split: option.splits)

lemma inv_nonneg_iff: "inv_nonneg st \<longleftrightarrow> (\<forall>k. 0 \<le> inv_qty st k)"
  by (auto simp: inv_nonneg_def inv_qty_def split: option.splits) (metis domI option.sel)

lemma select_source_inventory_SomeD:
  "select_source_inventory st w p = Some (a, n) \<Longrightarrow>
     \<exists>r. inventory_tbl st (w, p) = Some r \<and> quantity r = a \<and> product_tbl st p = Some n"
  by (auto simp: select_source_inventory_def split: option.splits)

lemma length_select_warehouses_in:
  "a \<noteq> b \<Longrightarrow> length (select_warehouses_in st a b) = 2 \<longleftrightarrow>
     warehouse_tbl st a \<noteq> None \<and> warehouse_tbl st b \<noteq> None"
  by (auto simp: select_warehouses_in_def List.map_filter_def)

lemma map_of_select_warehouses_in:
  "a \<noteq> b \<Longrightarrow> warehouse_tbl st a = Some na \<Longrightarrow> warehouse_tbl st b = Some nb \<Longrightarrow>
     map_of (select_warehouses_in st a b) = [a \<mapsto> na, b \<mapsto> nb]"
  by (rule ext) (auto simp: select_warehouses_in_def List.map_filter_simps)

lemmas [eval_simps] = select_warehouses_in_def select_source_inventory_def
  update_quantity_sub_def upsert_quantity_add_def select_inventory_capacity_def
  update_status_def inv_qty_def inv_nonneg_def empty_store_def List.map_filter_simps

end
