(* ===== verification/WarehouseTransfer.thy ===== *)
theory WarehouseTransfer
  imports Store PyFloat
begin

text \<open>
  The warehouse transfer, \<open>product_transfer\<close> of \<open>src/server.py\<close> (lines 111--216): the
  request, the errors the handler answers with, the capacity status of lines 186--199,
  one item of the loop (lines 137--207), the loop, and the handler. Each function returns
  the store together with the outcome, on every branch: a statement that has run has
  committed, so an error answered after a write leaves that write in the store.
\<close>

subsection \<open>Requests, results and errors\<close>

text \<open>
  The JSON body; a field that is absent is \<open>None\<close> (\<open>field in data\<close> is false, and
  \<open>product_item['product_id']\<close> raises \<open>KeyError\<close>).
\<close>

record transfer_item =
  item_product_id :: "pid option"
  item_quantity_needed :: "int option"

record transfer_request =
  from_warehouse :: "wid option"
  to_warehouse :: "wid option"
  products_to_get :: "transfer_item list option"

text \<open>One element of the \<open>transfers\<close> list of the response (lines 201--207).\<close>

record transfer_entry =
  entry_product_id :: pid
  entry_product_name :: string
  entry_quantity :: int
  entry_from :: string
  entry_to :: string

datatype transfer_error =
    MissingFields                       \<comment> \<open>line 118, 400\<close>
  | SameWarehouse                       \<comment> \<open>line 121, 400\<close>
  | WarehouseNotFound                   \<comment> \<open>line 130, 404\<close>
  | InvalidQuantity pid                 \<comment> \<open>line 142, 400\<close>
  | ProductNotFound pid                 \<comment> \<open>line 153, 404\<close>
  | InsufficientInventory pid int int   \<comment> \<open>line 157, 400: available, requested\<close>
  | Uncaught py_exc                     \<comment> \<open>not caught by \<open>except sqlite3.Error\<close>: 500\<close>

fun transfer_http_status :: "transfer_error \<Rightarrow> nat" where
  "transfer_http_status MissingFields = 400"
| "transfer_http_status SameWarehouse = 400"
| "transfer_http_status WarehouseNotFound = 404"
| "transfer_http_status (InvalidQuantity _) = 400"
| "transfer_http_status (ProductNotFound _) = 404"
| "transfer_http_status (InsufficientInventory _ _ _) = 400"
| "transfer_http_status (Uncaught _) = 500"

subsection \<open>Capacity status (lines 176--199)\<close>

text \<open>
  \<open>capacity_percentage = (current_qty / max_capacity) * 100\<close>, then
  \<open>'GOOD_CAPACITY' if capacity_percentage > threshold else 'LOW_CAPACITY'\<close>.
\<close>

definition capacity_status :: "int \<Rightarrow> int \<Rightarrow> int \<Rightarrow> py_exc + inv_status" where
  "capacity_status qty maxc thr =
     (case py_truediv qty maxc of
        Inl e \<Rightarrow> Inl e
      | Inr x \<Rightarrow> Inr (if py_gt_int (py_mul_pos x 100) thr then GOOD_CAPACITY else LOW_CAPACITY))"

text \<open>
  One pass of the inner loop: read quantity and capacity, skip the pair when there is
  no capacity row, otherwise write the status. An exception leaves the store as it was
  given.
\<close>

definition refresh_status :: "store \<Rightarrow> wid \<Rightarrow> pid \<Rightarrow> py_exc + store" where
  "refresh_status st w p =
     (case select_inventory_capacity st w p of
        None \<Rightarrow> Inr st
      | Some (qty, maxc, thr) \<Rightarrow>
          (case capacity_status qty maxc thr of
             Inl e \<Rightarrow> Inl e
           | Inr s \<Rightarrow> Inr (update_status st w p s)))"

text \<open>\<open>for warehouse_id in [data['from_warehouse'], data['to_warehouse']]\<close>\<close>

fun refresh_all :: "store \<Rightarrow> wid list \<Rightarrow> pid \<Rightarrow> py_exc option \<times> store" where
  "refresh_all st [] p = (None, st)"
| "refresh_all st (w # ws) p =
     (case refresh_status st w p of
        Inl e \<Rightarrow> (Some e, st)
      | Inr st' \<Rightarrow> refresh_all st' ws p)"

declare refresh_all.simps [simp del]

subsection \<open>One item, the loop, the handler\<close>

text \<open>
  \<open>names\<close> is \<open>warehouse_names\<close> of line 133. The ids are Python ints, so \<open>str\<close> is
  injective on them and the dictionary keyed by \<open>str(w['id'])\<close> is the map from the
  ids of the selected rows.
\<close>

text \<open>
  The guards of one item (lines 138--157), in the code's order: the two keys, the
  quantity, the binding of the product id (an \<open>int\<close> beyond 64 bits raises
  \<open>OverflowError\<close> in \<open>execute_query\<close>, uncaught), the source row (joined with \<open>Product\<close>), the available quantity. On success
  they give the product, the quantity and the product's name.
\<close>

definition check_item :: "store \<Rightarrow> wid \<Rightarrow> transfer_item \<Rightarrow> transfer_error + pid \<times> int \<times> string" where
  "check_item st f it =
     (case item_product_id it of
        None \<Rightarrow> Inl (Uncaught KeyError)
      | Some p \<Rightarrow>
     (case item_quantity_needed it of
        None \<Rightarrow> Inl (Uncaught KeyError)
      | Some q \<Rightarrow>
     (if q \<le> 0 then Inl (InvalidQuantity p)
      else if \<not> sqlite_int p then Inl (Uncaught OverflowError)
      else case select_source_inventory st f p of
        None \<Rightarrow> Inl (ProductNotFound p)
      | Some (avail, pname) \<Rightarrow>
     (if avail < q then Inl (InsufficientInventory p avail q)
      else Inr (p, q, pname)))))"

text \<open>
  The writes of one item (lines 159--207): decrement the source, upsert the destination,
  refresh both statuses, then build the entry, reading \<open>warehouse_names\<close>.
\<close>

definition move_item ::
  "wid \<Rightarrow> wid \<Rightarrow> (wid \<rightharpoonup> string) \<Rightarrow> store \<Rightarrow> pid \<Rightarrow> int \<Rightarrow> string \<Rightarrow>
     (transfer_error + transfer_entry) \<times> store" where
  "move_item f t names st p q pname =
     (let st1 = update_quantity_sub st f p q;
          st2 = upsert_quantity_add st1 t p q
      in case refresh_all st2 [f, t] p of
           (Some e, st3) \<Rightarrow> (Inl (Uncaught e), st3)
         | (None, st3) \<Rightarrow>
             (case (names f, names t) of
                (Some fn, Some tn) \<Rightarrow>
                  (Inr \<lparr>entry_product_id = p, entry_product_name = pname,
                        entry_quantity = q, entry_from = fn, entry_to = tn\<rparr>, st3)
              | _ \<Rightarrow> (Inl (Uncaught KeyError), st3)))"

text \<open>One iteration of the loop: the guards, then the writes.\<close>

definition transfer_one ::
  "wid \<Rightarrow> wid \<Rightarrow> (wid \<rightharpoonup> string) \<Rightarrow> store \<Rightarrow> transfer_item \<Rightarrow>
     (transfer_error + transfer_entry) \<times> store" where
  "transfer_one f t names st it =
     (case check_item st f it of
        Inl e \<Rightarrow> (Inl e, st)
      | Inr (p, q, pname) \<Rightarrow> move_item f t names st p q pname)"

text \<open>\<open>for product_item in data['products_to_get']\<close>: stop at the first error.\<close>

fun transfer_loop ::
  "wid \<Rightarrow> wid \<Rightarrow> (wid \<rightharpoonup> string) \<Rightarrow> store \<Rightarrow> transfer_item list \<Rightarrow>
     (transfer_error + transfer_entry list) \<times> store" where
  "transfer_loop f t names st [] = (Inr [], st)"
| "transfer_loop f t names st (it # its) =
     (case transfer_one f t names st it of
        (Inl e, st') \<Rightarrow> (Inl e, st')
      | (Inr x, st') \<Rightarrow>
          (case transfer_loop f t names st' its of
             (Inl e, st'') \<Rightarrow> (Inl e, st'')
           | (Inr xs, st'') \<Rightarrow> (Inr (x # xs), st'')))"

definition product_transfer ::
  "store \<Rightarrow> transfer_request \<Rightarrow> (transfer_error + transfer_entry list) \<times> store" where
  "product_transfer st req =
     (case (from_warehouse req, to_warehouse req, products_to_get req) of
        (Some f, Some t, Some items) \<Rightarrow>
          (if f = t then (Inl SameWarehouse, st)
           else if \<not> (sqlite_int f \<and> sqlite_int t) then (Inl (Uncaught OverflowError), st)
           else let ws = select_warehouses_in st f t
                in if length ws \<noteq> 2 then (Inl WarehouseNotFound, st)
                   else transfer_loop f t (map_of ws) st items)
      | _ \<Rightarrow> (Inl MissingFields, st))"

subsection \<open>The abstract specification: stock moves\<close>

text \<open>
  What the transfer promises, on the quantity view \<open>inv_qty\<close> of the store: each item
  moves its quantity of its product from the source to the destination warehouse, in
  the order of the request. \<open>status_ok\<close> says that a row's status is the one the code
  computes from its quantity and capacity (the data model's \<open>status must reflect current
  quantity\<close>); rows without a capacity row carry no obligation.
\<close>

definition move_stock :: "wid \<Rightarrow> wid \<Rightarrow> pid \<times> int \<Rightarrow> (wid \<times> pid \<Rightarrow> int) \<Rightarrow> (wid \<times> pid \<Rightarrow> int)" where
  "move_stock f t m Q = (case m of (p, q) \<Rightarrow> Q((f, p) := Q (f, p) - q, (t, p) := Q (t, p) + q))"

definition item_move :: "transfer_item \<Rightarrow> pid \<times> int" where
  "item_move it = (the (item_product_id it), the (item_quantity_needed it))"

definition status_ok :: "store \<Rightarrow> wid \<Rightarrow> pid \<Rightarrow> bool" where
  "status_ok st w p =
     (case (inventory_tbl st (w, p), capacity_tbl st (w, p)) of
        (Some r, Some c) \<Rightarrow>
          capacity_status (quantity r) (max_capacity c) (capacity_percentage c) = Inr (status r)
      | _ \<Rightarrow> True)"

lemmas [eval_simps] = capacity_status_def refresh_status_def refresh_all.simps check_item_def
  move_item_def transfer_one_def
  product_transfer_def move_stock_def item_move_def status_ok_def

subsection \<open>The status refresh\<close>

lemma refresh_status_qty:
  "refresh_status st w p = Inr st' \<Longrightarrow> inv_qty st' = inv_qty st"
  by (auto simp: refresh_status_def split: option.splits sum.splits)

lemma refresh_status_frame:
  assumes "refresh_status st w p = Inr st'"
  shows "k \<noteq> (w, p) \<Longrightarrow> inventory_tbl st' k = inventory_tbl st k"
    and "capacity_tbl st' = capacity_tbl st" and "warehouse_tbl st' = warehouse_tbl st"
    and "product_tbl st' = product_tbl st"
  using assms
  by (auto simp: refresh_status_def gateway_simps frame_simps split: option.splits sum.splits)

lemma refresh_status_ok:
  "refresh_status st w p = Inr st' \<Longrightarrow> status_ok st' w p"
  by (auto simp: refresh_status_def select_inventory_capacity_def status_ok_def gateway_simps
      frame_simps split: option.splits sum.splits)

lemma refresh_all_qty:
  "refresh_all st ws p = (r, st') \<Longrightarrow> inv_qty st' = inv_qty st"
  by (induction st ws p arbitrary: r rule: refresh_all.induct)
    (auto simp: refresh_all.simps dest: refresh_status_qty split: sum.splits)

lemma refresh_all_frame:
  "refresh_all st ws p = (r, st') \<Longrightarrow> (\<And>w. w \<in> set ws \<Longrightarrow> k \<noteq> (w, p)) \<Longrightarrow>
     inventory_tbl st' k = inventory_tbl st k"
  by (induction st ws p arbitrary: r rule: refresh_all.induct)
    (fastforce simp: refresh_all.simps dest: refresh_status_frame(1) split: sum.splits)+

lemma refresh_all_tables:
  "refresh_all st ws p = (r, st') \<Longrightarrow>
     capacity_tbl st' = capacity_tbl st \<and> warehouse_tbl st' = warehouse_tbl st \<and>
     product_tbl st' = product_tbl st"
  by (induction st ws p arbitrary: r rule: refresh_all.induct)
    (auto simp: refresh_all.simps dest: refresh_status_frame(2-4) split: sum.splits)

lemma status_ok_cong:
  "inventory_tbl st' (w, p) = inventory_tbl st (w, p) \<Longrightarrow> capacity_tbl st' = capacity_tbl st \<Longrightarrow>
     status_ok st' w p = status_ok st w p"
  by (simp add: status_ok_def)

lemma refresh_all_ok:
  "refresh_all st ws p = (None, st') \<Longrightarrow> distinct ws \<Longrightarrow> w \<in> set ws \<Longrightarrow> status_ok st' w p"
proof (induction st ws p rule: refresh_all.induct)
  case (1 st p)
  then show ?case by (simp add: refresh_all.simps)
next
  case (2 st v ws p)
  then obtain st1 where r1: "refresh_status st v p = Inr st1"
    and rest: "refresh_all st1 ws p = (None, st')"
    by (auto simp: refresh_all.simps split: sum.splits)
  show ?case
  proof (cases "w = v")
    case True
    have "status_ok st1 v p" using r1 by (rule refresh_status_ok)
    moreover have "inventory_tbl st' (v, p) = inventory_tbl st1 (v, p)"
      using rest "2.prems"(2) by (auto intro: refresh_all_frame)
    moreover have "capacity_tbl st' = capacity_tbl st1"
      using rest by (auto dest: refresh_all_tables)
    ultimately show ?thesis using True status_ok_cong by metis
  next
    case False
    with "2.IH" r1 rest "2.prems" show ?thesis by simp
  qed
qed

subsection \<open>One item\<close>

lemma check_item_Inr:
  assumes "check_item st f it = Inr (p, q, pname)"
  shows "item_product_id it = Some p \<and> item_quantity_needed it = Some q \<and> 0 < q \<and>
    q \<le> inv_qty st (f, p) \<and> inventory_tbl st (f, p) \<noteq> None \<and> product_tbl st p = Some pname"
  using assms
  by (auto simp: check_item_def select_source_inventory_def inv_qty_def
      split: option.splits if_splits)

lemma move_item_cases:
  assumes "move_item f t nm st p q pname = (r, st')"
  obtains rr where
    "refresh_all (upsert_quantity_add (update_quantity_sub st f p q) t p q) [f, t] p = (rr, st')"
  using assms that
  by (auto simp: move_item_def Let_def 
      split: prod.split_asm option.split_asm)

lemma move_item_Inr:
  assumes "move_item f t nm st p q pname = (Inr x, st')"
  shows "refresh_all (upsert_quantity_add (update_quantity_sub st f p q) t p q) [f, t] p = (None, st')"
    and "x = \<lparr>entry_product_id = p, entry_product_name = pname, entry_quantity = q,
            entry_from = the (nm f), entry_to = the (nm t)\<rparr>"
    and "nm f \<noteq> None" and "nm t \<noteq> None"
  using assms
  by (auto simp: move_item_def Let_def 
      split: prod.split_asm option.split_asm)

lemma transfer_writes_qty:
  assumes "f \<noteq> t" "inventory_tbl st (f, p) \<noteq> None"
    and "refresh_all (upsert_quantity_add (update_quantity_sub st f p q) t p q) ws p = (rr, st')"
  shows "inv_qty st' = move_stock f t (p, q) (inv_qty st)"
proof -
  have "inv_qty st' = inv_qty (upsert_quantity_add (update_quantity_sub st f p q) t p q)"
    using assms(3) by (rule refresh_all_qty)
  with assms(1,2) show ?thesis
    by (simp add: inv_qty_upsert_quantity_add inv_qty_update_quantity_sub move_stock_def)
qed

lemma transfer_writes_frame:
  assumes "refresh_all (upsert_quantity_add (update_quantity_sub st f p q) t p q) [f, t] p = (rr, st')"
    and "p' \<noteq> p"
  shows "inventory_tbl st' (w, p') = inventory_tbl st (w, p')"
proof -
  have "inventory_tbl st' (w, p') = inventory_tbl (upsert_quantity_add (update_quantity_sub st f p q) t p q) (w, p')"
    using assms(1) by (rule refresh_all_frame) (use assms(2) in auto)
  with assms(2) show ?thesis by (simp add: gateway_simps)
qed

lemma transfer_writes_tables:
  assumes "refresh_all (upsert_quantity_add (update_quantity_sub st f p q) t p q) ws p = (rr, st')"
  shows "capacity_tbl st' = capacity_tbl st \<and> warehouse_tbl st' = warehouse_tbl st \<and>
    product_tbl st' = product_tbl st"
  using refresh_all_tables [OF assms] by (simp add: frame_simps)

lemma transfer_one_cases:
  assumes "transfer_one f t nm st it = (r, st')"
  obtains (unchanged) e where "check_item st f it = Inl e" "r = Inl e" "st' = st"
  | (moved) p q pname where "check_item st f it = Inr (p, q, pname)"
      "move_item f t nm st p q pname = (r, st')"
  using assms that by (auto simp: transfer_one_def split: sum.splits)

lemma move_stock_nonneg:
  "f \<noteq> t \<Longrightarrow> 0 < q \<Longrightarrow> q \<le> Q (f, p) \<Longrightarrow> \<forall>k. 0 \<le> Q k \<Longrightarrow> 0 \<le> move_stock f t (p, q) Q k"
  by (cases k) (auto simp: move_stock_def)

lemma transfer_one_qty:
  assumes "transfer_one f t nm st it = (r, st')" "f \<noteq> t"
  shows "inv_qty st' = inv_qty st \<or>
    (item_product_id it \<noteq> None \<and> item_quantity_needed it \<noteq> None \<and> 0 < snd (item_move it) \<and>
     snd (item_move it) \<le> inv_qty st (f, fst (item_move it)) \<and>
     inv_qty st' = move_stock f t (item_move it) (inv_qty st))"
  using assms(1)
proof (cases rule: transfer_one_cases)
  case unchanged
  then show ?thesis by simp
next
  case (moved p q pname)
  from moved(2) obtain rr where
    wr: "refresh_all (upsert_quantity_add (update_quantity_sub st f p q) t p q) [f, t] p = (rr, st')"
    by (rule move_item_cases)
  note chk = check_item_Inr [OF moved(1)]
  with transfer_writes_qty [OF assms(2) _ wr]
  have "inv_qty st' = move_stock f t (p, q) (inv_qty st)" by blast
  with chk show ?thesis by (simp add: item_move_def)
qed

lemma transfer_one_Inr:
  assumes "transfer_one f t nm st it = (Inr x, st')" "f \<noteq> t"
  shows "item_product_id it = Some (entry_product_id x) \<and> item_quantity_needed it = Some (entry_quantity x) \<and>
    inv_qty st' = move_stock f t (item_move it) (inv_qty st) \<and>
    status_ok st' f (entry_product_id x) \<and> status_ok st' t (entry_product_id x) \<and>
    nm f = Some (entry_from x) \<and> nm t = Some (entry_to x) \<and>
    product_tbl st (entry_product_id x) = Some (entry_product_name x)"
  using assms(1)
proof (cases rule: transfer_one_cases)
  case (moved p q pname)
  note chk = check_item_Inr [OF moved(1)]
  note mv = move_item_Inr [OF moved(2)]
  have "inv_qty st' = move_stock f t (p, q) (inv_qty st)"
    using assms(2) chk mv(1) by (blast intro: transfer_writes_qty)
  moreover have "status_ok st' f p" "status_ok st' t p"
    using refresh_all_ok [OF mv(1)] assms(2) by simp_all
  ultimately show ?thesis
    using chk mv(2-4) by (auto simp: item_move_def)
qed simp

lemma transfer_one_frame:
  assumes "transfer_one f t nm st it = (r, st')" "item_product_id it \<noteq> Some p'"
  shows "inventory_tbl st' (w, p') = inventory_tbl st (w, p')"
  using assms(1)
proof (cases rule: transfer_one_cases)
  case (moved p q pname)
  from moved(2) obtain rr where
    wr: "refresh_all (upsert_quantity_add (update_quantity_sub st f p q) t p q) [f, t] p = (rr, st')"
    by (rule move_item_cases)
  have "p' \<noteq> p" using check_item_Inr [OF moved(1)] assms(2) by auto
  with wr show ?thesis by (rule transfer_writes_frame)
qed simp

lemma transfer_one_tables:
  assumes "transfer_one f t nm st it = (r, st')"
  shows "capacity_tbl st' = capacity_tbl st \<and> warehouse_tbl st' = warehouse_tbl st \<and>
    product_tbl st' = product_tbl st"
  using assms
proof (cases rule: transfer_one_cases)
  case (moved p q pname)
  from moved(2) obtain rr where
    wr: "refresh_all (upsert_quantity_add (update_quantity_sub st f p q) t p q) [f, t] p = (rr, st')"
    by (rule move_item_cases)
  then show ?thesis by (rule transfer_writes_tables)
qed simp

subsection \<open>The loop\<close>

lemma transfer_one_nonneg:
  assumes "transfer_one f t nm st it = (r, st')" "f \<noteq> t" "inv_nonneg st"
  shows "inv_nonneg st'"
proof -
  obtain p q where m: "item_move it = (p, q)" by fastforce
  have nn: "\<forall>k. 0 \<le> inv_qty st k" using assms(3) by (simp add: inv_nonneg_iff)
  from transfer_one_qty [OF assms(1,2)] show ?thesis
  proof
    assume "inv_qty st' = inv_qty st"
    with nn show ?thesis by (simp add: inv_nonneg_iff)
  next
    assume "item_product_id it \<noteq> None \<and> item_quantity_needed it \<noteq> None \<and>
      0 < snd (item_move it) \<and> snd (item_move it) \<le> inv_qty st (f, fst (item_move it)) \<and>
      inv_qty st' = move_stock f t (item_move it) (inv_qty st)"
    with m have "0 < q" "q \<le> inv_qty st (f, p)" "inv_qty st' = move_stock f t (p, q) (inv_qty st)"
      by simp_all
    with nn assms(2) show ?thesis by (simp add: inv_nonneg_iff move_stock_nonneg)
  qed
qed

lemma transfer_loop_Inr:
  assumes "transfer_loop f t nm st items = (Inr es, st')" "f \<noteq> t"
  shows "inv_qty st' = fold (move_stock f t) (map item_move items) (inv_qty st) \<and>
    map item_product_id items = map (Some \<circ> entry_product_id) es \<and>
    map item_quantity_needed items = map (Some \<circ> entry_quantity) es"
  using assms(1)
proof (induction items arbitrary: st es)
  case Nil
  then show ?case by simp
next
  case (Cons it its)
  then obtain x st1 xs where one: "transfer_one f t nm st it = (Inr x, st1)"
    and rest: "transfer_loop f t nm st1 its = (Inr xs, st')" and es: "es = x # xs"
    by (auto split: prod.splits sum.splits)
  from transfer_one_Inr [OF one assms(2)] Cons.IH [OF rest] es show ?case
    by simp
qed

lemma transfer_loop_prefix:
  assumes "transfer_loop f t nm st items = (r, st')" "f \<noteq> t"
  shows "\<exists>k \<le> length items.
    inv_qty st' = fold (move_stock f t) (map item_move (take k items)) (inv_qty st)"
  using assms(1)
proof (induction items arbitrary: st r)
  case Nil
  then show ?case by simp
next
  case (Cons it its)
  obtain r1 st1 where one: "transfer_one f t nm st it = (r1, st1)" by fastforce
  show ?case
  proof (cases r1)
    case (Inl e)
    with Cons.prems one have st': "st' = st1" by simp
    from transfer_one_qty [OF one assms(2)]
    have "inv_qty st1 = inv_qty st \<or> inv_qty st1 = move_stock f t (item_move it) (inv_qty st)"
      by blast
    then show ?thesis
    proof
      assume "inv_qty st1 = inv_qty st"
      with st' show ?thesis by (intro exI [of _ 0]) simp
    next
      assume "inv_qty st1 = move_stock f t (item_move it) (inv_qty st)"
      with st' show ?thesis by (intro exI [of _ 1]) simp
    qed
  next
    case (Inr x)
    with Cons.prems one obtain r2 where rest: "transfer_loop f t nm st1 its = (r2, st')"
      by (auto split: prod.splits sum.splits)
    from Cons.IH [OF rest] obtain k where "k \<le> length its"
      and k: "inv_qty st' = fold (move_stock f t) (map item_move (take k its)) (inv_qty st1)"
      by blast
    moreover from transfer_one_Inr [OF one [unfolded Inr] assms(2)]
    have "inv_qty st1 = move_stock f t (item_move it) (inv_qty st)" by blast
    ultimately show ?thesis
      by (intro exI [of _ "Suc k"]) simp
  qed
qed

lemma transfer_loop_nonneg:
  assumes "transfer_loop f t nm st items = (r, st')" "f \<noteq> t" "inv_nonneg st"
  shows "inv_nonneg st'"
  using assms(1,3)
proof (induction items arbitrary: st r)
  case Nil
  then show ?case by simp
next
  case (Cons it its)
  obtain r1 st1 where one: "transfer_one f t nm st it = (r1, st1)" by fastforce
  have nn1: "inv_nonneg st1" using transfer_one_nonneg [OF one assms(2) Cons.prems(2)] .
  show ?case
  proof (cases r1)
    case (Inl e)
    with Cons.prems(1) one nn1 show ?thesis by simp
  next
    case (Inr x)
    with Cons.prems(1) one obtain r2 where rest: "transfer_loop f t nm st1 its = (r2, st')"
      by (auto split: prod.splits sum.splits)
    from Cons.IH [OF rest nn1] show ?thesis .
  qed
qed

lemma transfer_loop_tables:
  assumes "transfer_loop f t nm st items = (r, st')"
  shows "capacity_tbl st' = capacity_tbl st \<and> warehouse_tbl st' = warehouse_tbl st \<and>
    product_tbl st' = product_tbl st"
  using assms
proof (induction items arbitrary: st r)
  case Nil
  then show ?case by simp
next
  case (Cons it its)
  obtain r1 st1 where one: "transfer_one f t nm st it = (r1, st1)" by fastforce
  note step = transfer_one_tables [OF one]
  show ?case
  proof (cases r1)
    case (Inl e)
    with Cons.prems one step show ?thesis by simp
  next
    case (Inr x)
    with Cons.prems one obtain r2 where rest: "transfer_loop f t nm st1 its = (r2, st')"
      by (auto split: prod.splits sum.splits)
    with Cons.IH [OF rest] step show ?thesis by simp
  qed
qed

lemma transfer_loop_frame:
  assumes "transfer_loop f t nm st items = (r, st')" "\<forall>i \<in> set items. item_product_id i \<noteq> Some p"
  shows "inventory_tbl st' (w, p) = inventory_tbl st (w, p)"
  using assms
proof (induction items arbitrary: st r)
  case Nil
  then show ?case by simp
next
  case (Cons it its)
  obtain r1 st1 where one: "transfer_one f t nm st it = (r1, st1)" by fastforce
  have step: "inventory_tbl st1 (w, p) = inventory_tbl st (w, p)"
    using transfer_one_frame [OF one] Cons.prems(2) by simp
  show ?case
  proof (cases r1)
    case (Inl e)
    with Cons.prems(1) one step show ?thesis by simp
  next
    case (Inr x)
    with Cons.prems(1) one obtain r2 where rest: "transfer_loop f t nm st1 its = (r2, st')"
      by (auto split: prod.splits sum.splits)
    with Cons.IH [OF rest] Cons.prems(2) step show ?thesis by simp
  qed
qed

lemma transfer_loop_status:
  assumes "transfer_loop f t nm st items = (Inr es, st')" "f \<noteq> t" "e \<in> set es"
  shows "status_ok st' f (entry_product_id e) \<and> status_ok st' t (entry_product_id e)"
  using assms(1,3)
proof (induction items arbitrary: st es e)
  case Nil
  then show ?case by simp
next
  case (Cons it its)
  then obtain x st1 xs where one: "transfer_one f t nm st it = (Inr x, st1)"
    and rest: "transfer_loop f t nm st1 its = (Inr xs, st')" and es: "es = x # xs"
    by (auto split: prod.splits sum.splits)
  show ?case
  proof (cases "entry_product_id e \<in> entry_product_id ` set xs")
    case True
    then obtain e' where e': "e' \<in> set xs" "entry_product_id e' = entry_product_id e" by auto
    from Cons.IH [OF rest e'(1)] e'(2) show ?thesis by simp
  next
    case False
    with Cons.prems(2) es have ex: "e = x" by auto
    have ids: "map item_product_id its = map (Some \<circ> entry_product_id) xs"
      using transfer_loop_Inr [OF rest assms(2)] by blast
    have "\<forall>i \<in> set its. item_product_id i \<noteq> Some (entry_product_id e)"
    proof
      fix i
      assume "i \<in> set its"
      then have "item_product_id i \<in> set (map (Some \<circ> entry_product_id) xs)"
        by (metis ids image_eqI list.set_map)
      with False show "item_product_id i \<noteq> Some (entry_product_id e)" by auto
    qed
    then have fr: "\<And>w. inventory_tbl st' (w, entry_product_id e) = inventory_tbl st1 (w, entry_product_id e)"
      and cap: "capacity_tbl st' = capacity_tbl st1"
      using transfer_loop_frame [OF rest] transfer_loop_tables [OF rest] by blast+
    have "status_ok st' f (entry_product_id e) = status_ok st1 f (entry_product_id e)"
      "status_ok st' t (entry_product_id e) = status_ok st1 t (entry_product_id e)"
      by (rule status_ok_cong [OF fr cap])+
    with transfer_one_Inr [OF one assms(2)] ex show ?thesis by simp
  qed
qed

subsection \<open>The handler\<close>

lemma product_transfer_cases:
  assumes "product_transfer st req = (r, st')"
  obtains (rejected) "st' = st"
      and "r \<in> {Inl MissingFields, Inl SameWarehouse, Inl (Uncaught OverflowError), Inl WarehouseNotFound}"
  | (loop) f t items na nb where "from_warehouse req = Some f" "to_warehouse req = Some t"
      "products_to_get req = Some items" "f \<noteq> t" "sqlite_int f" "sqlite_int t" "warehouse_tbl st f = Some na"
      "warehouse_tbl st t = Some nb" "transfer_loop f t [f \<mapsto> na, t \<mapsto> nb] st items = (r, st')"
proof -
  consider (missing) "from_warehouse req = None \<or> to_warehouse req = None \<or> products_to_get req = None"
    | (present) f t items where "from_warehouse req = Some f" "to_warehouse req = Some t"
      "products_to_get req = Some items"
    by fastforce
  then show thesis
  proof cases
    case missing
    with assms that(1) show thesis by (auto simp: product_transfer_def split: option.splits)
  next
    case (present f t items)
    show thesis
    proof (cases "f \<noteq> t \<and> sqlite_int f \<and> sqlite_int t \<and> warehouse_tbl st f \<noteq> None \<and> warehouse_tbl st t \<noteq> None")
      case True
      then obtain na nb where "warehouse_tbl st f = Some na" "warehouse_tbl st t = Some nb" by auto
      with True present assms that(2) show thesis
        by (simp add: product_transfer_def length_select_warehouses_in map_of_select_warehouses_in)
    next
      case False
      with present assms that(1) show thesis
        by (auto simp: product_transfer_def length_select_warehouses_in split: if_splits)
    qed
  qed
qed

lemma fold_move_stock_conserves:
  "f \<noteq> t \<Longrightarrow> fold (move_stock f t) ms Q (f, p) + fold (move_stock f t) ms Q (t, p) = Q (f, p) + Q (t, p)
    \<and> (w \<noteq> f \<longrightarrow> w \<noteq> t \<longrightarrow> fold (move_stock f t) ms Q (w, p) = Q (w, p))"
  by (induction ms arbitrary: Q) (auto simp: move_stock_def)

lemma item_moves_entries:
  "map item_product_id items = map (Some \<circ> entry_product_id) es \<Longrightarrow>
   map item_quantity_needed items = map (Some \<circ> entry_quantity) es \<Longrightarrow>
   map item_move items = map (\<lambda>e. (entry_product_id e, entry_quantity e)) es"
  by (induction items arbitrary: es) (auto simp: item_move_def)

lemma transfer_one_error_kind:
  assumes "transfer_one f t nm st it = (Inl e, st')"
  shows "e \<notin> {MissingFields, SameWarehouse, WarehouseNotFound}"
  using assms
proof (cases rule: transfer_one_cases)
  case (unchanged e')
  then show ?thesis
    by (auto simp: check_item_def split: option.splits if_splits)
next
  case (moved p q pname)
  then show ?thesis
    by (auto simp: move_item_def Let_def split: prod.split_asm option.split_asm)
qed

lemma transfer_loop_error_kind:
  "transfer_loop f t nm st items = (Inl e, st') \<Longrightarrow> e \<notin> {MissingFields, SameWarehouse, WarehouseNotFound}"
proof (induction items arbitrary: st)
  case Nil
  then show ?case by simp
next
  case (Cons it its)
  then show ?case
    by (auto split: prod.splits sum.splits dest: transfer_one_error_kind)
qed

lemma transfer_loop_entries:
  assumes "transfer_loop f t nm st items = (Inr es, st')" "f \<noteq> t" "e \<in> set es"
  shows "nm f = Some (entry_from e) \<and> nm t = Some (entry_to e) \<and>
    product_tbl st (entry_product_id e) = Some (entry_product_name e)"
  using assms(1,3)
proof (induction items arbitrary: st es)
  case Nil
  then show ?case by simp
next
  case (Cons it its)
  then obtain x st1 xs where one: "transfer_one f t nm st it = (Inr x, st1)"
    and rest: "transfer_loop f t nm st1 its = (Inr xs, st')" and es: "es = x # xs"
    by (auto split: prod.splits sum.splits)
  have "product_tbl st1 = product_tbl st" using transfer_one_tables [OF one] by simp
  with transfer_one_Inr [OF one assms(2)] Cons.IH [OF rest] Cons.prems(2) es show ?case
    by auto
qed

lemma transfer_loop_Inl:
  assumes "transfer_loop f t nm st items = (Inl e, st')"
  shows "\<exists>j < length items. \<exists>es st1. transfer_loop f t nm st (take j items) = (Inr es, st1) \<and>
    transfer_one f t nm st1 (items ! j) = (Inl e, st')"
  using assms
proof (induction items arbitrary: st)
  case Nil
  then show ?case by simp
next
  case (Cons it its)
  obtain r1 st1 where one: "transfer_one f t nm st it = (r1, st1)" by fastforce
  show ?case
  proof (cases r1)
    case (Inl e1)
    with Cons.prems one have "transfer_one f t nm st it = (Inl e, st')" by simp
    then show ?thesis by (intro exI [of _ 0]) simp
  next
    case (Inr x)
    with Cons.prems one have "transfer_loop f t nm st1 its = (Inl e, st')"
      by (simp split: prod.splits sum.splits)
    from Cons.IH [OF this] obtain j es st2 where "j < length its"
      "transfer_loop f t nm st1 (take j its) = (Inr es, st2)"
      "transfer_one f t nm st2 (its ! j) = (Inl e, st')" by blast
    with one Inr show ?thesis by (intro exI [of _ "Suc j"]) simp
  qed
qed

lemma refresh_status_dom:
  "refresh_status st w p = Inr st' \<Longrightarrow> inventory_tbl st k \<noteq> None \<Longrightarrow> inventory_tbl st' k \<noteq> None"
  by (auto simp: refresh_status_def gateway_simps split: option.splits sum.splits)

lemma refresh_all_dom:
  "refresh_all st ws p = (r, st') \<Longrightarrow> inventory_tbl st k \<noteq> None \<Longrightarrow> inventory_tbl st' k \<noteq> None"
  by (induction st ws p arbitrary: r rule: refresh_all.induct)
    (auto simp: refresh_all.simps split: sum.split_asm dest: refresh_status_dom)

lemma move_item_dom:
  assumes "move_item f t nm st p q pname = (r, st')" "inventory_tbl st k \<noteq> None"
  shows "inventory_tbl st' k \<noteq> None"
proof -
  obtain rr where "refresh_all (upsert_quantity_add (update_quantity_sub st f p q) t p q) [f, t] p = (rr, st')"
    using assms(1) by (rule move_item_cases)
  then show ?thesis by (rule refresh_all_dom) (use assms(2) in \<open>auto simp: gateway_simps split: option.splits\<close>)
qed

text \<open>A request of one item that passes the guards is the writes of that item.\<close>

lemma product_transfer_one_item:
  assumes "from_warehouse req = Some f" "to_warehouse req = Some t" "products_to_get req = Some [it]"
    and "f \<noteq> t" "sqlite_int f" "sqlite_int t" "warehouse_tbl st f = Some fn" "warehouse_tbl st t = Some tn"
    and "check_item st f it = Inr (p, q, pname)"
  shows "product_transfer st req =
    (case move_item f t [f \<mapsto> fn, t \<mapsto> tn] st p q pname of
       (Inl e, s) \<Rightarrow> (Inl e, s) | (Inr x, s) \<Rightarrow> (Inr [x], s))"
  using assms by (simp add: product_transfer_def length_select_warehouses_in map_of_select_warehouses_in
      transfer_one_def split: prod.splits sum.splits)

subsection \<open>Properties of the transfer\<close>

text \<open>
  C1 (refinement). A transfer that succeeds changes the quantities of the store exactly as the abstract specification does: the items' stock moves from the source to the destination warehouse, applied in the order of the request.
\<close>

theorem product_transfer_refines:
  assumes "product_transfer st req = (Inr es, st')"
    and "from_warehouse req = Some f" "to_warehouse req = Some t" "products_to_get req = Some items"
  shows "inv_qty st' = fold (move_stock f t) (map item_move items) (inv_qty st)"
  using assms(1)
proof (cases rule: product_transfer_cases)
  case (loop f' t' items' na nb)
  with assms(2-4) transfer_loop_Inr [of f t _ st items es st'] show ?thesis by auto
qed simp

text \<open>
  C2 (invariant). No inventory quantity becomes negative: whatever the request and whatever the outcome, a store whose quantities are all non-negative stays so.
\<close>

theorem product_transfer_nonneg:
  assumes "inv_nonneg st" "product_transfer st req = (r, st')"
  shows "inv_nonneg st'"
  using assms(2)
proof (cases rule: product_transfer_cases)
  case rejected
  with assms(1) show ?thesis by simp
next
  case (loop f t items na nb)
  from transfer_loop_nonneg [OF loop(9) loop(4) assms(1)] show ?thesis .
qed

text \<open>
  C3 (safety). Whatever the outcome, the transfer conserves each product's total over the two warehouses of the request and leaves every other warehouse's quantities unchanged.
\<close>

theorem product_transfer_conserves:
  assumes "product_transfer st req = (r, st')"
    and "from_warehouse req = Some f" "to_warehouse req = Some t"
  shows "inv_qty st' (f, p) + inv_qty st' (t, p) = inv_qty st (f, p) + inv_qty st (t, p) \<and>
    (w \<notin> {f, t} \<longrightarrow> inv_qty st' (w, p) = inv_qty st (w, p))"
  using assms(1)
proof (cases rule: product_transfer_cases)
  case (loop f' t' items na nb)
  with assms(2,3) have ft: "f' = f" "t' = t" "f \<noteq> t" by auto
  with loop(9) obtain k where "inv_qty st' = fold (move_stock f t) (map item_move (take k items)) (inv_qty st)"
    using transfer_loop_prefix by blast
  with ft(3) fold_move_stock_conserves [of f t _ "inv_qty st" p w]
  show ?thesis by auto
qed simp

text \<open>
  C4 (error). A failed transfer is not rolled back. When the request reaches the loop
  and fails, the failure is raised by one item, number \<open>j\<close>: every item before it has
  succeeded and its move is committed (the store holds the moves of the first \<open>j\<close>
  items), the failing item raised the error, and its own writes are either absent (a
  guard failed) or complete (both quantity writes committed before a later exception).
\<close>

theorem product_transfer_no_rollback:
  assumes "product_transfer st req = (Inl e, st')"
    and "from_warehouse req = Some f" "to_warehouse req = Some t" "products_to_get req = Some items"
    and "f \<noteq> t" "sqlite_int f" "sqlite_int t" "warehouse_tbl st f \<noteq> None" "warehouse_tbl st t \<noteq> None"
  shows "\<exists>j < length items. \<exists>es st1.
    transfer_loop f t (map_of (select_warehouses_in st f t)) st (take j items) = (Inr es, st1) \<and>
    inv_qty st1 = fold (move_stock f t) (map item_move (take j items)) (inv_qty st) \<and>
    transfer_one f t (map_of (select_warehouses_in st f t)) st1 (items ! j) = (Inl e, st') \<and>
    (inv_qty st' = inv_qty st1 \<or> inv_qty st' = move_stock f t (item_move (items ! j)) (inv_qty st1))"
proof -
  have "transfer_loop f t (map_of (select_warehouses_in st f t)) st items = (Inl e, st')"
    using assms by (simp add: product_transfer_def length_select_warehouses_in)
  from transfer_loop_Inl [OF this] obtain j es st1 where j: "j < length items"
    and pre: "transfer_loop f t (map_of (select_warehouses_in st f t)) st (take j items) = (Inr es, st1)"
    and one: "transfer_one f t (map_of (select_warehouses_in st f t)) st1 (items ! j) = (Inl e, st')"
    by blast
  have "inv_qty st1 = fold (move_stock f t) (map item_move (take j items)) (inv_qty st)"
    using transfer_loop_Inr [OF pre assms(5)] by simp
  moreover have "inv_qty st' = inv_qty st1 \<or> inv_qty st' = move_stock f t (item_move (items ! j)) (inv_qty st1)"
    using transfer_one_qty [OF one assms(5)] by blast
  ultimately show ?thesis using j pre one by blast
qed

text \<open>
  C5 (error). The three request-level rejections, missing fields, equal warehouses and unknown warehouses, happen exactly under their conditions, in the code's order (an id that does not bind as a 64-bit integer raises before the warehouses are looked up), and never change the store.
\<close>

theorem product_transfer_rejects:
  "(product_transfer st req = (Inl MissingFields, st') \<longleftrightarrow>
      st' = st \<and> (from_warehouse req = None \<or> to_warehouse req = None \<or> products_to_get req = None)) \<and>
   (product_transfer st req = (Inl SameWarehouse, st') \<longleftrightarrow>
      st' = st \<and> (\<exists>f items. from_warehouse req = Some f \<and> to_warehouse req = Some f \<and>
                           products_to_get req = Some items)) \<and>
   (product_transfer st req = (Inl WarehouseNotFound, st') \<longleftrightarrow>
      st' = st \<and> (\<exists>f t items. from_warehouse req = Some f \<and> to_warehouse req = Some t \<and>
                             products_to_get req = Some items \<and> f \<noteq> t \<and> sqlite_int f \<and> sqlite_int t \<and>
                             (warehouse_tbl st f = None \<or> warehouse_tbl st t = None)))"
  by (auto simp: product_transfer_def length_select_warehouses_in dest: transfer_loop_error_kind
      split: option.splits if_splits)

text \<open>
  C6 (error). When the first item fails a guard of lines 138--157 (a missing key, a quantity not above 0, a product id beyond 64 bits, a product absent from the source, too little stock), the handler answers with that error before any write.
\<close>

theorem product_transfer_first_item_rejected:
  assumes "from_warehouse req = Some f" "to_warehouse req = Some t" "f \<noteq> t"
    and "sqlite_int f" "sqlite_int t" "warehouse_tbl st f \<noteq> None" "warehouse_tbl st t \<noteq> None"
    and "products_to_get req = Some (it # its)" "check_item st f it = Inl e"
  shows "product_transfer st req = (Inl e, st)"
  using assms by (simp add: product_transfer_def length_select_warehouses_in transfer_one_def)

text \<open>
  C7 (invariant). After a successful transfer, the status of every moved product's inventory row, at the source and at the destination, is the one the capacity computation gives for its current quantity.
\<close>

theorem product_transfer_status:
  assumes "product_transfer st req = (Inr es, st')"
    and "from_warehouse req = Some f" "to_warehouse req = Some t" "e \<in> set es"
  shows "status_ok st' f (entry_product_id e) \<and> status_ok st' t (entry_product_id e)"
  using assms(1)
proof (cases rule: product_transfer_cases)
  case (loop f' t' items na nb)
  with assms(2-4) show ?thesis using transfer_loop_status [of f t _ st items es st' e] by auto
qed simp

text \<open>
  C9 (functional). The response of a successful transfer lists one entry per item, in order, with the item's product and quantity, the product's name and the two warehouses' names from the store.
\<close>

theorem product_transfer_entries:
  assumes "product_transfer st req = (Inr es, st')"
    and "from_warehouse req = Some f" "to_warehouse req = Some t" "products_to_get req = Some items"
  shows "map item_move items = map (\<lambda>e. (entry_product_id e, entry_quantity e)) es \<and>
    (\<forall>e \<in> set es. warehouse_tbl st f = Some (entry_from e) \<and> warehouse_tbl st t = Some (entry_to e) \<and>
       product_tbl st (entry_product_id e) = Some (entry_product_name e))"
  using assms(1)
proof (cases rule: product_transfer_cases)
  case (loop f' t' items' na nb)
  with assms(2-4) have ft: "f' = f" "t' = t" "items' = items" by auto
  with loop have "map item_move items = map (\<lambda>e. (entry_product_id e, entry_quantity e)) es"
    using transfer_loop_Inr item_moves_entries by metis
  moreover have "\<forall>e \<in> set es. warehouse_tbl st f = Some (entry_from e) \<and>
      warehouse_tbl st t = Some (entry_to e) \<and> product_tbl st (entry_product_id e) = Some (entry_product_name e)"
    using transfer_loop_entries [OF loop(9) loop(4)] loop(4,7,8) ft by auto
  ultimately show ?thesis ..
qed simp

text \<open>
  C10 (error). A capacity row with \<open>max_capacity = 0\<close> for the moved product, at the
  source, or at the destination when the source has no capacity row, makes the status
  refresh raise \<open>ZeroDivisionError\<close> (line 192), which \<open>except sqlite3.Error\<close> does not
  catch: whatever the store and however many items follow, the request fails with a 500
  after both quantity writes of its first item have committed.
\<close>

theorem transfer_zero_capacity_commits:
  assumes "from_warehouse req = Some f" "to_warehouse req = Some t" "products_to_get req = Some (it # its)"
    and "f \<noteq> t" "sqlite_int f" "sqlite_int t" "warehouse_tbl st f \<noteq> None" "warehouse_tbl st t \<noteq> None"
    and "check_item st f it = Inr (p, q, pname)"
    and "(\<exists>c. capacity_tbl st (f, p) = Some c \<and> max_capacity c = 0) \<or>
      (capacity_tbl st (f, p) = None \<and> (\<exists>c. capacity_tbl st (t, p) = Some c \<and> max_capacity c = 0))"
  shows "\<exists>st'. product_transfer st req = (Inl (Uncaught ZeroDivisionError), st') \<and>
    inv_qty st' = move_stock f t (p, q) (inv_qty st)"
proof -
  define st2 where "st2 = upsert_quantity_add (update_quantity_sub st f p q) t p q"
  have row: "inventory_tbl st (f, p) \<noteq> None" using check_item_Inr [OF assms(9)] by simp
  have q2: "inv_qty st2 = move_stock f t (p, q) (inv_qty st)"
    using assms(4) row by (simp add: st2_def inv_qty_upsert_quantity_add inv_qty_update_quantity_sub
        move_stock_def)
  have c2: "capacity_tbl st2 = capacity_tbl st" by (simp add: st2_def frame_simps)
  have i2: "inventory_tbl st2 (f, p) \<noteq> None" "inventory_tbl st2 (t, p) \<noteq> None"
    using row by (auto simp: st2_def gateway_simps split: option.splits)
  have "refresh_all st2 [f, t] p = (Some ZeroDivisionError, st2)"
    using assms(10) i2 c2
    by (auto simp: refresh_all.simps refresh_status_def select_inventory_capacity_def
        capacity_status_def py_truediv_def split: option.splits)
  then have "transfer_one f t (map_of (select_warehouses_in st f t)) st it =
      (Inl (Uncaught ZeroDivisionError), st2)"
    using assms(9) by (simp add: transfer_one_def move_item_def st2_def)
  then have "product_transfer st req = (Inl (Uncaught ZeroDivisionError), st2)"
    using assms(1-8) by (simp add: product_transfer_def length_select_warehouses_in)
  with q2 show ?thesis by blast
qed

end
