(* ===== verification/Views.thy ===== *)
theory Views
  imports Store
begin

text \<open>
  The handlers of \<open>src/server.py\<close> other than the transfer: the home display
  (lines 24--27), the products of a warehouse (29--47), the fill-capacity listing
  (94--108) and the creation of a purchase order (66--90). A handler's result is the
  HTTP status with the value passed to \<open>jsonify\<close>, or the exception it lets escape
  (a 500). The query texts of the views live in \<open>commands/views\<close>, outside
  \<open>src/\<close>; each view is a parameter of its handler, so that the lemmas hold whatever
  rows it returns. The insert of a purchase order is modelled from the spec.
\<close>

type_synonym response = "nat \<times> pyjson"

definition error_body :: "string \<Rightarrow> pyjson" where
  "error_body msg = JDict [(pystr ''error'', JStr (pystr msg))]"

subsection \<open>The lookups of the handlers\<close>

text \<open>\<open>SELECT warehouse_name FROM Warehouse WHERE id = ?\<close> (lines 36--37).\<close>

definition select_warehouse_name :: "store \<Rightarrow> sql_val \<Rightarrow> string list" where
  "select_warehouse_name st p =
     (case sql_key p of None \<Rightarrow> [] | Some w \<Rightarrow> (case warehouse_tbl st w of None \<Rightarrow> [] | Some n \<Rightarrow> [n]))"

text \<open>\<open>SELECT id FROM Warehouse WHERE id = ?\<close> (lines 100--101).\<close>

definition select_warehouse_id :: "store \<Rightarrow> sql_val \<Rightarrow> wid list" where
  "select_warehouse_id st p =
     (case sql_key p of None \<Rightarrow> [] | Some w \<Rightarrow> (case warehouse_tbl st w of None \<Rightarrow> [] | Some n \<Rightarrow> [w]))"

text \<open>\<open>SELECT id FROM Supplier WHERE id = ?\<close> (lines 79--80).\<close>

definition select_supplier_id :: "store \<Rightarrow> sql_val \<Rightarrow> sid list" where
  "select_supplier_id st p =
     (case sql_key p of None \<Rightarrow> [] | Some s \<Rightarrow> if s \<in> set (supplier_tbl st) then [s] else [])"

subsection \<open>The read views\<close>

definition warehouse_home_display :: "(store \<Rightarrow> pyjson list) \<Rightarrow> store \<Rightarrow> response" where
  "warehouse_home_display home_view st = (200, JList (home_view st))"

definition warehouse_products ::
  "(store \<Rightarrow> sql_val \<Rightarrow> pyjson list) \<Rightarrow> store \<Rightarrow> ustr option \<Rightarrow> response" where
  "warehouse_products products_view st warehouse_id =
     (case warehouse_id of
        None \<Rightarrow> (400, error_body ''warehouse_id query parameter is required'')
      | Some w \<Rightarrow>
          if w = [] then (400, error_body ''warehouse_id query parameter is required'')
          else (case select_warehouse_name st (SText w) of
                  [] \<Rightarrow> (404, error_body ''Warehouse not found'')
                | n # _ \<Rightarrow> (200, JDict [(pystr ''warehouse_name'', JStr (pystr n)),
                                       (pystr ''products'', JList (products_view st (SText w)))])))"

definition warehouse_fill_capacity ::
  "(store \<Rightarrow> sql_val \<Rightarrow> pyjson list) \<Rightarrow> store \<Rightarrow> ustr option \<Rightarrow> response" where
  "warehouse_fill_capacity fill_view st warehouse_id =
     (case warehouse_id of
        None \<Rightarrow> (400, error_body ''warehouse_id query parameter is required'')
      | Some w \<Rightarrow>
          if w = [] then (400, error_body ''warehouse_id query parameter is required'')
          else (case select_warehouse_id st (SText w) of
                  [] \<Rightarrow> (404, error_body ''Warehouse not found'')
                | _ \<Rightarrow> (200, JList (fill_view st (SText w)))))"

subsection \<open>Purchase order creation\<close>

text \<open>
  \<open>create_purchase_order_query\<close> (spec 4.3): insert a row for the supplier and the
  amount, with the default warehouse 1, under the next row id, and return the row. The
  amount is bound here; the supplier was bound already by the lookup.
\<close>

definition next_po_id :: "store \<Rightarrow> int" where
  "next_po_id st = foldl max 0 (map fst (purchase_order_tbl st)) + 1"

definition po_json :: "int \<Rightarrow> po_row \<Rightarrow> pyjson" where
  "po_json i r = JDict [(pystr ''id'', JInt i), (pystr ''supplier_id'', py_of_sql (po_supplier r)),
     (pystr ''total_amount'', py_of_sql (po_total r)), (pystr ''warehouse_id'', JInt (po_warehouse r))]"

definition purchase_order_insert ::
  "store \<Rightarrow> sql_val \<Rightarrow> pyjson \<Rightarrow> py_exc + pyjson list \<times> store" where
  "purchase_order_insert st sp amount =
     (case bind_param amount of
        Inl e \<Rightarrow> Inl e
      | Inr tv \<Rightarrow>
          (let i = next_po_id st; r = \<lparr>po_supplier = sp, po_total = tv, po_warehouse = 1\<rparr>
           in Inr ([po_json i r], st\<lparr>purchase_order_tbl := purchase_order_tbl st @ [(i, r)]\<rparr>)))"

text \<open>\<open>except sqlite3.Error\<close> (line 89) catches only the binding errors of \<open>sqlite3\<close>.\<close>

definition sqlite_error :: "py_exc \<Rightarrow> bool" where
  "sqlite_error e \<longleftrightarrow> e = ProgrammingError"

text \<open>\<open>str(e)\<close>, the text of the exception, stands here as its class name.\<close>

definition exc_body :: "py_exc \<Rightarrow> pyjson" where
  "exc_body e = JDict [(pystr ''error'', JStr (pystr (if e = ProgrammingError then ''ProgrammingError'' else ''Error'')))]"

definition create_purchase_order :: "store \<Rightarrow> pyjson \<Rightarrow> (py_exc + response) \<times> store" where
  "create_purchase_order st data =
     (case data of
        JDict d \<Rightarrow>
          (let supplier_id = dict_get d (pystr ''supplier_id'');
               total_amount = dict_get d (pystr ''total_amount'')
           in if \<not> py_truthy supplier_id \<or> \<not> py_truthy total_amount
              then (Inr (400, error_body ''Supplier ID and Total amount are required''), st)
              else (case bind_param supplier_id of
                      Inl e \<Rightarrow> (Inl e, st)
                    | Inr sp \<Rightarrow>
                        (case select_supplier_id st sp of
                           [] \<Rightarrow> (Inr (404, error_body ''Supplier not found''), st)
                         | _ \<Rightarrow>
                            (case purchase_order_insert st sp total_amount of
                               Inl e \<Rightarrow> (if sqlite_error e then Inr (400, exc_body e) else Inl e, st)
                             | Inr (rows, st') \<Rightarrow>
                                 (case rows of
                                    [] \<Rightarrow> (Inl IndexError, st')
                                  | r # _ \<Rightarrow> (Inr (201, r), st'))))))
      | _ \<Rightarrow> (Inl AttributeError, st))"

text \<open>
  The data model's integrity of \<open>PurchaseOrder\<close>: distinct ids, and every order's
  supplier value selects an existing supplier.
\<close>

definition po_ok :: "store \<Rightarrow> bool" where
  "po_ok st \<longleftrightarrow> distinct (map fst (purchase_order_tbl st)) \<and>
     list_all (\<lambda>(i, r). sql_key (po_supplier r) \<in> Some ` set (supplier_tbl st)) (purchase_order_tbl st)"

text \<open>A request body with the two fields of a purchase order.\<close>

abbreviation po_request :: "pyjson \<Rightarrow> pyjson \<Rightarrow> pyjson" where
  "po_request a b \<equiv> JDict [(pystr ''supplier_id'', a), (pystr ''total_amount'', b)]"

lemmas [eval_simps] = error_body_def select_warehouse_name_def select_warehouse_id_def
  select_supplier_id_def warehouse_home_display_def warehouse_products_def
  warehouse_fill_capacity_def next_po_id_def po_json_def purchase_order_insert_def
  sqlite_error_def exc_body_def create_purchase_order_def po_ok_def

subsection \<open>Properties of the handlers\<close>

lemma int_text_nonempty: "int_text k \<noteq> []"
  using nat_digits_props by (simp add: int_text_def)

lemma sql_key_int_text_plain: "- (2 ^ 63) \<le> k \<Longrightarrow> k < 2 ^ 63 \<Longrightarrow> sql_key (SText (int_text k)) = Some k"
  using numeric_int_text [of "[]" "[]" k] by (simp add: sql_text_num_def signed_int_def)

text \<open>
  C15 (functional). A request for the products of a warehouse whose \<open>warehouse_id\<close> is
  the decimal text of a 64-bit id answers 404 when there is no such warehouse, and
  otherwise 200 with the warehouse's name and the rows the products view returns for
  that text.
\<close>

theorem warehouse_products_lookup:
  assumes "- (2 ^ 63) \<le> w" "w < 2 ^ 63"
  shows "warehouse_products V st (Some (int_text w)) =
    (case warehouse_tbl st w of
       None \<Rightarrow> (404, error_body ''Warehouse not found'')
     | Some n \<Rightarrow> (200, JDict [(pystr ''warehouse_name'', JStr (pystr n)),
                            (pystr ''products'', JList (V st (SText (int_text w))))]))"
  using sql_key_int_text_plain [OF assms] int_text_nonempty [of w]
  by (simp add: warehouse_products_def select_warehouse_name_def split: option.splits)

text \<open>
  C16 (error). The products and fill-capacity views answer 400 exactly when the
  \<open>warehouse_id\<close> parameter is absent or empty (\<open>if not warehouse_id\<close>), whatever the
  store and the views.
\<close>

theorem missing_warehouse_id_rejected:
  "(fst (warehouse_products V st a) = 400 \<longleftrightarrow> a = None \<or> a = Some []) \<and>
   (fst (warehouse_fill_capacity V' st a) = 400 \<longleftrightarrow> a = None \<or> a = Some [])"
  by (auto simp: warehouse_products_def warehouse_fill_capacity_def select_warehouse_name_def
      select_warehouse_id_def split: option.splits list.splits)

lemma dict_get_two:
  "dict_get [(pystr ''supplier_id'', a), (pystr ''total_amount'', b)] (pystr ''supplier_id'') = a"
  "dict_get [(pystr ''supplier_id'', a), (pystr ''total_amount'', b)] (pystr ''total_amount'') = b"
  by (simp_all add: dict_get_def pystr_def)

text \<open>
  C17 (error). A purchase order whose \<open>total_amount\<close> is present but falsy (\<open>0\<close>,
  \<open>0.0\<close>, \<open>""\<close>, \<open>[]\<close>, \<open>{}\<close>, \<open>false\<close>) is rejected with the 400 for a missing
  field, and the store is unchanged: the check \<open>not total_amount\<close> is a truth test,
  where the spec speaks of absence.
\<close>

theorem purchase_order_falsy_amount:
  "\<not> py_truthy b \<Longrightarrow> create_purchase_order st (po_request a b) =
     (Inr (400, error_body ''Supplier ID and Total amount are required''), st)"
  by (simp add: create_purchase_order_def dict_get_two)

lemma select_supplier_int:
  "- (2 ^ 63) \<le> s \<Longrightarrow> s < 2 ^ 63 \<Longrightarrow> s \<in> set (supplier_tbl st) \<Longrightarrow>
     bind_param (JInt s) = Inr (SInt s) \<and> select_supplier_id st (SInt s) = [s]"
  by (simp add: select_supplier_id_def)

text \<open>
  C18 (error). A value \<open>sqlite3\<close> cannot bind is a 500 when it is the supplier id
  (the lookup runs outside the \<open>try\<close>) and a 400 when it is the amount (the insert
  runs inside it), with the store unchanged in both cases.
\<close>

theorem purchase_order_bind_errors:
  assumes "xs \<noteq> []" "py_truthy b" "ys \<noteq> []" "s \<noteq> 0" "- (2 ^ 63) \<le> s" "s < 2 ^ 63"
    "s \<in> set (supplier_tbl st)"
  shows "create_purchase_order st (po_request (JList xs) b) = (Inl ProgrammingError, st) \<and>
    create_purchase_order st (po_request (JInt s) (JList ys)) = (Inr (400, exc_body ProgrammingError), st)"
  using assms select_supplier_int [OF assms(5-7)]
  by (simp add: create_purchase_order_def dict_get_two purchase_order_insert_def sqlite_error_def)

text \<open>
  C19 (error). An amount of \<open>2^63\<close> or more for an existing supplier makes the insert
  raise \<open>OverflowError\<close>, which \<open>except sqlite3.Error\<close> does not catch: a 500, where
  the spec promises a client error for an insert the store rejects.
\<close>

theorem purchase_order_amount_overflow:
  assumes "s \<noteq> 0" "- (2 ^ 63) \<le> s" "s < 2 ^ 63" "s \<in> set (supplier_tbl st)" "2 ^ 63 \<le> b"
  shows "create_purchase_order st (po_request (JInt s) (JInt b)) = (Inl OverflowError, st)"
  using assms select_supplier_int [OF assms(2-4)]
  by (simp add: create_purchase_order_def dict_get_two purchase_order_insert_def sqlite_error_def)

text \<open>
  C20 (functional). A purchase order for an existing supplier with a non-zero 64-bit
  amount answers 201 with the new row and appends exactly that row, under the next id
  and with warehouse 1, to the \<open>PurchaseOrder\<close> table; nothing else changes.
\<close>

theorem purchase_order_created:
  assumes "s \<noteq> 0" "- (2 ^ 63) \<le> s" "s < 2 ^ 63" "s \<in> set (supplier_tbl st)"
    "b \<noteq> 0" "- (2 ^ 63) \<le> b" "b < 2 ^ 63"
  shows "create_purchase_order st (po_request (JInt s) (JInt b)) =
    (let r = \<lparr>po_supplier = SInt s, po_total = SInt b, po_warehouse = 1\<rparr>
     in (Inr (201, po_json (next_po_id st) r),
         st\<lparr>purchase_order_tbl := purchase_order_tbl st @ [(next_po_id st, r)]\<rparr>))"
  using assms select_supplier_int [OF assms(2-4)]
  by (simp add: create_purchase_order_def dict_get_two purchase_order_insert_def Let_def)

lemma foldl_max_ge: "a \<le> foldl max a xs \<and> (\<forall>x \<in> set xs. x \<le> foldl max a xs)" for xs :: "int list"
proof (induction xs arbitrary: a)
  case Nil
  then show ?case by simp
next
  case (Cons y ys)
  from Cons.IH [of "max a y"] show ?case by auto
qed

lemma next_po_id_fresh: "next_po_id st \<notin> set (map fst (purchase_order_tbl st))"
  using foldl_max_ge [of 0 "map fst (purchase_order_tbl st)"] unfolding next_po_id_def by fastforce

lemma select_supplier_idD:
  "select_supplier_id st p = x # xs \<Longrightarrow> sql_key p \<in> Some ` set (supplier_tbl st)"
  by (auto simp: select_supplier_id_def split: option.splits if_splits)

lemma purchase_order_insert_Inr:
  "purchase_order_insert st sp amount = Inr (rows, st') \<Longrightarrow>
     \<exists>tv. st' = st\<lparr>purchase_order_tbl := purchase_order_tbl st @
          [(next_po_id st, \<lparr>po_supplier = sp, po_total = tv, po_warehouse = 1\<rparr>)]\<rparr>"
  by (auto simp: purchase_order_insert_def Let_def split: sum.splits)

lemma create_purchase_order_store:
  "snd (create_purchase_order st data) = st \<or>
   (\<exists>sp amount rows x xs. select_supplier_id st sp = x # xs \<and>
      purchase_order_insert st sp amount = Inr (rows, snd (create_purchase_order st data)))"
  by (auto simp: create_purchase_order_def Let_def split: pyjson.splits sum.splits list.splits)

lemma purchase_order_insert_po_ok:
  assumes "po_ok st" "select_supplier_id st sp \<noteq> []" "purchase_order_insert st sp amount = Inr (rows, st')"
  shows "po_ok st'"
proof -
  obtain x xs where s: "select_supplier_id st sp = x # xs" using assms(2) by (cases "select_supplier_id st sp") auto
  from purchase_order_insert_Inr [OF assms(3)] obtain tv where st': "st' =
      st\<lparr>purchase_order_tbl := purchase_order_tbl st @
          [(next_po_id st, \<lparr>po_supplier = sp, po_total = tv, po_warehouse = 1\<rparr>)]\<rparr>" by blast
  show ?thesis using assms(1) select_supplier_idD [OF s] next_po_id_fresh [of st]
    by (simp add: st' po_ok_def)
qed

lemma purchase_order_insert_tables:
  "purchase_order_insert st sp amount = Inr (rows, st') \<Longrightarrow>
     inventory_tbl st' = inventory_tbl st \<and> supplier_tbl st' = supplier_tbl st"
  by (auto dest: purchase_order_insert_Inr)

lemma create_purchase_order_po_ok:
  "po_ok st \<Longrightarrow> po_ok (snd (create_purchase_order st data))"
  using create_purchase_order_store [of st data]
  by (metis list.distinct(1) purchase_order_insert_po_ok)

end
