(* ===== verification/GatewayProgram.thy ===== *)
theory GatewayProgram
  imports WarehouseTransfer Views
begin

text \<open>
  The transfer handler at the grain of the gateway: each call of \<open>execute_query\<close> in
  \<open>product_transfer\<close> (\<open>src/server.py\<close>, lines 111--216) is one statement of a small
  program, and the Python code between two calls is the continuation that receives the
  statement's result. A read passes its rows to the continuation, a write changes the
  store. \<open>run_prog\<close> runs a program alone against the store; the theory \<open>Interleaving\<close>
  runs several at once. The purchase-order creation of \<open>Views\<close> (lines 66--90) is a
  program of the same statements, with its supplier read and its insert. The main results
  here are that the programs, run alone, are the handlers \<open>product_transfer\<close> and
  \<open>create_purchase_order\<close>.
\<close>

subsection \<open>Statements and programs\<close>

text \<open>The three writes of the handler: lines 160--164, 167--173 and 195--199.\<close>

datatype write_stmt = UpdSub wid pid int | Upsert wid pid int | UpdStatus wid pid inv_status

text \<open>The three reads of the transfer: lines 124--127, 145--150 and 178--184; the supplier
  read (lines 79--80) and the insert of a purchase order (line 86), which binds the amount
  and either raises or returns the new row.\<close>

datatype 'a prog =
    Ret 'a
  | ReadWh wid wid "(wid \<times> string) list \<Rightarrow> 'a prog"
  | ReadSrc wid pid "(int \<times> string) option \<Rightarrow> 'a prog"
  | ReadCap wid pid "(int \<times> int \<times> int) option \<Rightarrow> 'a prog"
  | Write write_stmt "'a prog"
  | ReadSup sql_val "sid list \<Rightarrow> 'a prog"
  | InsertPO sql_val pyjson "py_exc + pyjson list \<Rightarrow> 'a prog"

fun exec_write :: "store \<Rightarrow> write_stmt \<Rightarrow> store" where
  "exec_write st (UpdSub w p q) = update_quantity_sub st w p q"
| "exec_write st (Upsert w p q) = upsert_quantity_add st w p q"
| "exec_write st (UpdStatus w p s) = update_status st w p s"

text \<open>Sequencing: run the first program, pass its result on.\<close>

primrec bindp :: "'a prog \<Rightarrow> ('a \<Rightarrow> 'b prog) \<Rightarrow> 'b prog" where
  "bindp (Ret a) f = f a"
| "bindp (ReadWh a b k) f = ReadWh a b (\<lambda>r. bindp (k r) f)"
| "bindp (ReadSrc w p k) f = ReadSrc w p (\<lambda>r. bindp (k r) f)"
| "bindp (ReadCap w p k) f = ReadCap w p (\<lambda>r. bindp (k r) f)"
| "bindp (Write s k) f = Write s (bindp k f)"
| "bindp (ReadSup sp k) f = ReadSup sp (\<lambda>r. bindp (k r) f)"
| "bindp (InsertPO sp a k) f = InsertPO sp a (\<lambda>r. bindp (k r) f)"

text \<open>A program run alone: every statement sees the store the previous one left.\<close>

primrec run_prog :: "'a prog \<Rightarrow> store \<Rightarrow> 'a \<times> store" where
  "run_prog (Ret a) = (\<lambda>st. (a, st))"
| "run_prog (ReadWh a b k) = (\<lambda>st. run_prog (k (select_warehouses_in st a b)) st)"
| "run_prog (ReadSrc w p k) = (\<lambda>st. run_prog (k (select_source_inventory st w p)) st)"
| "run_prog (ReadCap w p k) = (\<lambda>st. run_prog (k (select_inventory_capacity st w p)) st)"
| "run_prog (Write s k) = (\<lambda>st. run_prog k (exec_write st s))"
| "run_prog (ReadSup sp k) = (\<lambda>st. run_prog (k (select_supplier_id st sp)) st)"
| "run_prog (InsertPO sp a k) = (\<lambda>st. case purchase_order_insert st sp a of
      Inl e \<Rightarrow> run_prog (k (Inl e)) st
    | Inr (rows, st') \<Rightarrow> run_prog (k (Inr rows)) st')"

subsection \<open>The transfer as a program\<close>

text \<open>The status loop of lines 176--199.\<close>

primrec refresh_prog :: "wid list \<Rightarrow> pid \<Rightarrow> py_exc option prog" where
  "refresh_prog [] p = Ret None"
| "refresh_prog (w # ws) p =
     ReadCap w p (\<lambda>r. case r of
        None \<Rightarrow> refresh_prog ws p
      | Some (qty, maxc, thr) \<Rightarrow>
          (case capacity_status qty maxc thr of
             Inl e \<Rightarrow> Ret (Some e)
           | Inr s \<Rightarrow> Write (UpdStatus w p s) (refresh_prog ws p)))"

text \<open>The writes of one item (lines 159--207).\<close>

definition move_prog ::
  "wid \<Rightarrow> wid \<Rightarrow> (wid \<rightharpoonup> string) \<Rightarrow> pid \<Rightarrow> int \<Rightarrow> string \<Rightarrow>
     (transfer_error + transfer_entry) prog" where
  "move_prog f t names p q pname =
     Write (UpdSub f p q) (Write (Upsert t p q)
       (bindp (refresh_prog [f, t] p) (\<lambda>r. case r of
          Some e \<Rightarrow> Ret (Inl (Uncaught e))
        | None \<Rightarrow>
            (case (names f, names t) of
               (Some fn, Some tn) \<Rightarrow>
                 Ret (Inr \<lparr>entry_product_id = p, entry_product_name = pname,
                           entry_quantity = q, entry_from = fn, entry_to = tn\<rparr>)
             | _ \<Rightarrow> Ret (Inl (Uncaught KeyError))))))"

text \<open>One item: the guards (lines 138--157), then the writes.\<close>

definition item_prog ::
  "wid \<Rightarrow> wid \<Rightarrow> (wid \<rightharpoonup> string) \<Rightarrow> transfer_item \<Rightarrow> (transfer_error + transfer_entry) prog" where
  "item_prog f t names it =
     (case item_product_id it of
        None \<Rightarrow> Ret (Inl (Uncaught KeyError))
      | Some p \<Rightarrow>
     (case item_quantity_needed it of
        None \<Rightarrow> Ret (Inl (Uncaught KeyError))
      | Some q \<Rightarrow>
     (if q \<le> 0 then Ret (Inl (InvalidQuantity p))
      else if \<not> sqlite_int p then Ret (Inl (Uncaught OverflowError))
      else ReadSrc f p (\<lambda>src. case src of
        None \<Rightarrow> Ret (Inl (ProductNotFound p))
      | Some (avail, pname) \<Rightarrow>
     (if avail < q then Ret (Inl (InsufficientInventory p avail q))
      else move_prog f t names p q pname)))))"

text \<open>The loop over \<open>products_to_get\<close> (lines 137--208).\<close>

primrec loop_prog ::
  "wid \<Rightarrow> wid \<Rightarrow> (wid \<rightharpoonup> string) \<Rightarrow> transfer_item list \<Rightarrow>
     (transfer_error + transfer_entry list) prog" where
  "loop_prog f t names [] = Ret (Inr [])"
| "loop_prog f t names (it # its) =
     bindp (item_prog f t names it) (\<lambda>r. case r of
        Inl e \<Rightarrow> Ret (Inl e)
      | Inr x \<Rightarrow> bindp (loop_prog f t names its) (\<lambda>r'. case r' of
           Inl e \<Rightarrow> Ret (Inl e)
         | Inr xs \<Rightarrow> Ret (Inr (x # xs))))"

text \<open>The handler (lines 111--216).\<close>

definition transfer_prog :: "transfer_request \<Rightarrow> (transfer_error + transfer_entry list) prog" where
  "transfer_prog req =
     (case (from_warehouse req, to_warehouse req, products_to_get req) of
        (Some f, Some t, Some items) \<Rightarrow>
          (if f = t then Ret (Inl SameWarehouse)
           else if \<not> (sqlite_int f \<and> sqlite_int t) then Ret (Inl (Uncaught OverflowError))
           else ReadWh f t (\<lambda>ws.
             if length ws \<noteq> 2 then Ret (Inl WarehouseNotFound)
             else loop_prog f t (map_of ws) items))
      | _ \<Rightarrow> Ret (Inl MissingFields))"

text \<open>\<open>create_purchase_order\<close> (lines 66--90) as a program.\<close>

definition po_prog :: "pyjson \<Rightarrow> (py_exc + response) prog" where
  "po_prog data =
     (case data of
        JDict d \<Rightarrow>
          (let supplier_id = dict_get d (pystr ''supplier_id'');
               total_amount = dict_get d (pystr ''total_amount'')
           in if \<not> py_truthy supplier_id \<or> \<not> py_truthy total_amount
              then Ret (Inr (400, error_body ''Supplier ID and Total amount are required''))
              else (case bind_param supplier_id of
                      Inl e \<Rightarrow> Ret (Inl e)
                    | Inr sp \<Rightarrow>
                        ReadSup sp (\<lambda>sup. case sup of
                           [] \<Rightarrow> Ret (Inr (404, error_body ''Supplier not found''))
                         | _ \<Rightarrow>
                            InsertPO sp total_amount (\<lambda>res. case res of
                               Inl e \<Rightarrow> Ret (if sqlite_error e then Inr (400, exc_body e) else Inl e)
                             | Inr rows \<Rightarrow>
                                 (case rows of
                                    [] \<Rightarrow> Ret (Inl IndexError)
                                  | r # _ \<Rightarrow> Ret (Inr (201, r)))))))
      | _ \<Rightarrow> Ret (Inl AttributeError))"

lemmas [eval_simps] = move_prog_def item_prog_def transfer_prog_def po_prog_def

subsection \<open>Running a program alone is the handler\<close>

lemma run_bindp:
  "run_prog (bindp m f) st = (case run_prog m st of (a, st') \<Rightarrow> run_prog (f a) st')"
  by (induction m arbitrary: st) (auto split: sum.split prod.split)

lemma run_refresh_prog: "run_prog (refresh_prog ws p) st = refresh_all st ws p"
  by (induction ws arbitrary: st)
    (auto simp: refresh_all.simps refresh_status_def split: option.splits sum.splits)

lemma run_move_prog: "run_prog (move_prog f t nm p q pname) st = move_item f t nm st p q pname"
  by (simp add: move_prog_def move_item_def run_bindp run_refresh_prog del: refresh_prog.simps
      split: option.splits prod.splits)

lemma run_item_prog: "run_prog (item_prog f t nm it) st = transfer_one f t nm st it"
  by (simp add: item_prog_def transfer_one_def check_item_def run_move_prog
      split: option.splits prod.splits)

lemma run_loop_prog: "run_prog (loop_prog f t nm items) st = transfer_loop f t nm st items"
  by (induction items arbitrary: st)
    (simp_all add: run_bindp run_item_prog split: prod.splits sum.splits)

lemma run_transfer_prog: "run_prog (transfer_prog req) st = product_transfer st req"
  by (simp add: transfer_prog_def product_transfer_def run_loop_prog split: option.splits)

lemma run_po_prog: "run_prog (po_prog data) st = create_purchase_order st data"
  by (simp add: po_prog_def create_purchase_order_def Let_def
      split: pyjson.splits sum.splits list.splits prod.splits)

subsection \<open>The handler writes only the inventory\<close>

lemma exec_write_inventory_only: "exec_write st s = st\<lparr>inventory_tbl := inventory_tbl (exec_write st s)\<rparr>"
  by (cases s) (simp_all add: update_quantity_sub_def upsert_quantity_add_def update_status_def)

end
