(* ===== verification/Interleaving.thy ===== *)
theory Interleaving
  imports GatewayProgram
begin

text \<open>
  Concurrent requests on the shared store. Flask serves requests independently and
  \<open>execute_query\<close> commits every statement on its own, so two transfers interleave at
  the grain of single statements: a configuration is the list of the running handlers'
  programs with the store, and a step runs the next statement of one of them. A single
  statement is atomic (SQLite serialises them); nothing larger is.
\<close>

subsection \<open>Steps, interleavings and schedules\<close>

text \<open>The next statement of one program, if it has one.\<close>

fun prog_step :: "store \<Rightarrow> 'a prog \<Rightarrow> ('a prog \<times> store) option" where
  "prog_step st (Ret a) = None"
| "prog_step st (ReadWh a b k) = Some (k (select_warehouses_in st a b), st)"
| "prog_step st (ReadSrc w p k) = Some (k (select_source_inventory st w p), st)"
| "prog_step st (ReadCap w p k) = Some (k (select_inventory_capacity st w p), st)"
| "prog_step st (Write s k) = Some (k, exec_write st s)"
| "prog_step st (ReadSup sp k) = Some (k (select_supplier_id st sp), st)"
| "prog_step st (InsertPO sp a k) =
     Some (case purchase_order_insert st sp a of
             Inl e \<Rightarrow> (k (Inl e), st)
           | Inr (rows, st') \<Rightarrow> (k (Inr rows), st'))"

inductive conc_step :: "'a prog list \<times> store \<Rightarrow> 'a prog list \<times> store \<Rightarrow> bool" where
  step: "i < length ts \<Longrightarrow> prog_step st (ts ! i) = Some (k, st') \<Longrightarrow>
     conc_step (ts, st) (ts[i := k], st')"

inductive_cases conc_stepE: "conc_step (ts, st) c'"

text \<open>A schedule names, step by step, the request that runs its next statement.\<close>

fun run_sched :: "nat list \<Rightarrow> 'a prog list \<times> store \<Rightarrow> ('a prog list \<times> store) option" where
  "run_sched [] c = Some c"
| "run_sched (i # is) (ts, st) =
     (if i < length ts then
        (case prog_step st (ts ! i) of
           None \<Rightarrow> None
         | Some (k, st') \<Rightarrow> run_sched is (ts[i := k], st'))
      else None)"

text \<open>The statements a program may write, and the warehouses they write to.\<close>

fun write_wh :: "write_stmt \<Rightarrow> wid" where
  "write_wh (UpdSub w p q) = w"
| "write_wh (Upsert w p q) = w"
| "write_wh (UpdStatus w p s) = w"

inductive touches_only :: "wid set \<Rightarrow> 'a prog \<Rightarrow> bool" where
  to_ret: "touches_only W (Ret a)"
| to_read_wh: "(\<And>r. touches_only W (k r)) \<Longrightarrow> touches_only W (ReadWh a b k)"
| to_read_src: "(\<And>r. touches_only W (k r)) \<Longrightarrow> touches_only W (ReadSrc w p k)"
| to_read_cap: "(\<And>r. touches_only W (k r)) \<Longrightarrow> touches_only W (ReadCap w p k)"
| to_write: "write_wh s \<in> W \<Longrightarrow> touches_only W k \<Longrightarrow> touches_only W (Write s k)"

inductive_cases touches_only_WriteE: "touches_only W (Write s k)"

text \<open>The warehouses a transfer request names.\<close>

definition req_warehouses :: "transfer_request \<Rightarrow> wid set" where
  "req_warehouses req = set_option (from_warehouse req) \<union> set_option (to_warehouse req)"

lemmas [eval_simps] = req_warehouses_def

text \<open>
  Units in flight. Between its decrement (lines 160--164) and its upsert (lines 167--173)
  a running transfer holds \<open>q\<close> units of its product that are in no row: \<open>in_flight\<close>
  counts them. A program is \<open>quiet\<close> when its next statement writes no quantity, and
  \<open>sub_at\<close> names the row its next statement decrements.
\<close>

fun in_flight :: "'a prog \<Rightarrow> pid \<Rightarrow> int" where
  "in_flight (Write (Upsert t p q) k) p' = (if p = p' then q else 0)"
| "in_flight _ p' = 0"

fun quiet :: "'a prog \<Rightarrow> bool" where
  "quiet (Write (Upsert t p q) k) = False"
| "quiet (Write (UpdSub f p q) k) = False"
| "quiet _ = True"

fun sub_at :: "'a prog \<Rightarrow> (wid \<times> pid) option" where
  "sub_at (Write (UpdSub f p q) k) = Some (f, p)"
| "sub_at _ = None"

text \<open>
  The shape of a transfer program: every decrement of a row in \<open>W\<close> is directly followed
  by the upsert of the same amount into a row of \<open>W\<close>, a decrement follows a read of its
  own row that found it, and every other statement is followed by a quiet program.
\<close>

inductive staged :: "wid set \<Rightarrow> 'a prog \<Rightarrow> bool" where
  stg_ret: "staged W (Ret a)"
| stg_wh: "(\<And>r. staged W (k r) \<and> quiet (k r)) \<Longrightarrow> staged W (ReadWh a b k)"
| stg_src: "(\<And>r. staged W (k r) \<and> (quiet (k r) \<or> (sub_at (k r) = Some (w, p) \<and> r \<noteq> None))) \<Longrightarrow>
    staged W (ReadSrc w p k)"
| stg_cap: "(\<And>r. staged W (k r) \<and> quiet (k r)) \<Longrightarrow> staged W (ReadCap w p k)"
| stg_status: "staged W k \<Longrightarrow> quiet k \<Longrightarrow> staged W (Write (UpdStatus w p s) k)"
| stg_sub: "f \<in> W \<Longrightarrow> staged W (Write (Upsert t p q) k) \<Longrightarrow> staged W (Write (UpdSub f p q) (Write (Upsert t p q) k))"
| stg_ups: "t \<in> W \<Longrightarrow> staged W k \<Longrightarrow> quiet k \<Longrightarrow> staged W (Write (Upsert t p q) k)"
| stg_sup: "(\<And>r. staged W (k r) \<and> quiet (k r)) \<Longrightarrow> staged W (ReadSup sp k)"
| stg_ins: "(\<And>r. staged W (k r) \<and> quiet (k r)) \<Longrightarrow> staged W (InsertPO sp a k)"

text \<open>A decrement about to run finds its row (rows are never deleted).\<close>

definition sub_ready :: "store \<Rightarrow> 'a prog \<Rightarrow> bool" where
  "sub_ready st pr = (case sub_at pr of None \<Rightarrow> True | Some k \<Rightarrow> inventory_tbl st k \<noteq> None)"

text \<open>The stock of a product held in the warehouses \<open>W\<close>.\<close>

definition stock_in :: "wid set \<Rightarrow> store \<Rightarrow> pid \<Rightarrow> int" where
  "stock_in W st p = (\<Sum>w\<in>W. inv_qty st (w, p))"

text \<open>Every running program is staged and ready; the units all of them hold in flight.\<close>

definition threads_ok :: "wid set \<Rightarrow> store \<Rightarrow> 'a prog list \<Rightarrow> bool" where
  "threads_ok W st ts = (\<forall>pr \<in> set ts. staged W pr \<and> sub_ready st pr)"

definition in_flight_all :: "'a prog list \<Rightarrow> pid \<Rightarrow> int" where
  "in_flight_all ts p = sum_list (map (\<lambda>pr. in_flight pr p) ts)"

subsection \<open>Schedules and single programs\<close>

lemma run_sched_reach:
  "run_sched is c = Some c' \<Longrightarrow> conc_step\<^sup>*\<^sup>* c c'"
proof (induction "is" c rule: run_sched.induct)
  case (1 c)
  then show ?case by simp
next
  case (2 i "is" ts st)
  then obtain k st' where i: "i < length ts" and s: "prog_step st (ts ! i) = Some (k, st')"
    and rest: "run_sched is (ts[i := k], st') = Some c'"
    by (auto split: if_splits option.splits)
  have "conc_step (ts, st) (ts[i := k], st')" using i s by (rule conc_step.step)
  moreover have "conc_step\<^sup>*\<^sup>* (ts[i := k], st') c'" using "2.IH" [OF i] s rest by simp
  ultimately show ?case by (rule converse_rtranclp_into_rtranclp)
qed

lemma prog_step_run:
  "prog_step st p = Some (k, st') \<Longrightarrow> run_prog p st = run_prog k st'"
  by (cases p) (auto split: sum.splits prod.splits)

lemma single_reach_run:
  "conc_step\<^sup>*\<^sup>* c c' \<Longrightarrow> c = ([p], st) \<Longrightarrow> c' = ([Ret a], st') \<Longrightarrow> run_prog p st = (a, st')"
proof (induction arbitrary: p st rule: converse_rtranclp_induct)
  case base
  then show ?case by auto
next
  case (step c c1)
  from step.hyps(1) step.prems(1) obtain k st1 where s: "prog_step st p = Some (k, st1)"
    and c1: "c1 = ([k], st1)"
    by (auto elim!: conc_stepE)
  from step.IH [OF c1 step.prems(2)] prog_step_run [OF s] show ?case by simp
qed

lemma thread_step:
  "prog_step st p = Some (k, st1) \<Longrightarrow> i < length ts \<Longrightarrow> ts ! i = p \<Longrightarrow>
     conc_step (ts, st) (ts[i := k], st1)"
  by (metis conc_step.step)

lemma thread_step_reach:
  "prog_step st p = Some (k, st1) \<Longrightarrow> i < length ts \<Longrightarrow> ts ! i = p \<Longrightarrow>
     conc_step\<^sup>*\<^sup>* (ts[i := k], st1) ((ts[i := k])[i := Ret a], st') \<Longrightarrow>
     conc_step\<^sup>*\<^sup>* (ts, st) (ts[i := Ret a], st')"
  by (metis thread_step converse_rtranclp_into_rtranclp list_update_overwrite)

text \<open>A request that runs alone from some point on, the others standing still, ends
  where its sequential run ends.\<close>

lemma run_thread_reach:
  "run_prog p st = (a, st') \<Longrightarrow> i < length ts \<Longrightarrow> ts ! i = p \<Longrightarrow>
     conc_step\<^sup>*\<^sup>* (ts, st) (ts[i := Ret a], st')"
proof (induction p arbitrary: st ts)
  case (Ret x)
  then show ?case by (metis list_update_id prod.inject run_prog.simps(1) rtranclp.rtrancl_refl)
next
  case (ReadWh x1 x2 k)
  show ?case
    by (rule thread_step_reach [OF _ ReadWh.prems(2,3)], simp, rule ReadWh.IH) (use ReadWh.prems in simp_all)
next
  case (ReadSrc x1 x2 k)
  show ?case
    by (rule thread_step_reach [OF _ ReadSrc.prems(2,3)], simp, rule ReadSrc.IH) (use ReadSrc.prems in simp_all)
next
  case (ReadCap x1 x2 k)
  show ?case
    by (rule thread_step_reach [OF _ ReadCap.prems(2,3)], simp, rule ReadCap.IH) (use ReadCap.prems in simp_all)
next
  case (Write s k)
  show ?case
    by (rule thread_step_reach [OF _ Write.prems(2,3)], simp, rule Write.IH) (use Write.prems in simp_all)
next
  case (ReadSup sp k)
  show ?case
    by (rule thread_step_reach [OF _ ReadSup.prems(2,3)], simp, rule ReadSup.IH) (use ReadSup.prems in simp_all)
next
  case (InsertPO sp amt k)
  obtain k1 st1 where s: "prog_step st (InsertPO sp amt k) = Some (k1, st1)" by (simp add: prod_eq_iff)
  have "k1 \<in> range k" "run_prog k1 st1 = (a, st')"
    using s InsertPO.prems prog_step_run [OF s] by (auto split: sum.splits prod.splits)
  then show ?case
    by (intro thread_step_reach [OF s InsertPO.prems(2,3)], rule InsertPO.IH) (use InsertPO.prems in simp_all)
qed

lemma run_single_reach:
  "run_prog p st = (a, st') \<Longrightarrow> conc_step\<^sup>*\<^sup>* ([p], st) ([Ret a], st')"
  using run_thread_reach [of p st a st' 0 "[p]"] by simp

subsection \<open>Transfers write only to the warehouses they name\<close>

lemma touches_only_mono: "touches_only W p \<Longrightarrow> W \<subseteq> W' \<Longrightarrow> touches_only W' p"
  by (induction rule: touches_only.induct) (auto intro: touches_only.intros)

lemma touches_only_bindp:
  "touches_only W m \<Longrightarrow> (\<And>a. touches_only W (f a)) \<Longrightarrow> touches_only W (bindp m f)"
  by (induction rule: touches_only.induct) (auto intro: touches_only.intros)

lemma touches_only_refresh: "set ws \<subseteq> W \<Longrightarrow> touches_only W (refresh_prog ws p)"
  by (induction ws) (auto intro!: touches_only.intros split: option.splits sum.splits)

lemma touches_only_move:
  "f \<in> W \<Longrightarrow> t \<in> W \<Longrightarrow> touches_only W (move_prog f t nm p q pname)"
  unfolding move_prog_def
  by (intro touches_only.to_write touches_only_bindp touches_only_refresh)
    (auto intro: touches_only.intros split: option.splits)

lemma touches_only_item:
  "f \<in> W \<Longrightarrow> t \<in> W \<Longrightarrow> touches_only W (item_prog f t nm it)"
  unfolding item_prog_def
  by (auto intro!: touches_only.intros touches_only_move split: option.splits)

lemma touches_only_loop:
  "f \<in> W \<Longrightarrow> t \<in> W \<Longrightarrow> touches_only W (loop_prog f t nm items)"
  by (induction items)
    (auto intro!: touches_only.intros touches_only_bindp touches_only_item split: sum.splits)

lemma touches_only_transfer: "touches_only (req_warehouses req) (transfer_prog req)"
  unfolding transfer_prog_def req_warehouses_def
  by (auto intro!: touches_only.intros touches_only_loop split: option.splits)

lemma run_prog_touches:
  "touches_only W p \<Longrightarrow> run_prog p st = (a, st') \<Longrightarrow> st' = st\<lparr>inventory_tbl := inventory_tbl st'\<rparr>"
proof (induction arbitrary: st rule: touches_only.induct)
  case (to_write s W k)
  from to_write.IH [of "exec_write st s"] to_write.prems exec_write_inventory_only [of st s]
  show ?case by (metis run_prog.simps(5) store.update_convs(4) store.surjective)
qed auto

lemma product_transfer_inventory_only:
  "snd (product_transfer st req) = st\<lparr>inventory_tbl := inventory_tbl (snd (product_transfer st req))\<rparr>"
  using run_prog_touches [OF touches_only_transfer, of req st] by (simp add: run_transfer_prog prod_eq_iff)

lemma exec_write_frame:
  "w \<noteq> write_wh s \<Longrightarrow> inventory_tbl (exec_write st s) (w, p) = inventory_tbl st (w, p)"
  by (cases s) (auto simp: gateway_simps)

lemma prog_step_touches:
  assumes "prog_step st p = Some (k, st')" "touches_only W p"
  shows "touches_only W k \<and> (\<forall>w p'. w \<notin> W \<longrightarrow> inventory_tbl st' (w, p') = inventory_tbl st (w, p'))"
  using assms(2,1)
  by (induction rule: touches_only.induct) (auto intro: exec_write_frame)

lemma conc_step_touches:
  assumes "conc_step c c'" "\<forall>p \<in> set (fst c). touches_only W p"
  shows "(\<forall>p \<in> set (fst c'). touches_only W p) \<and>
    (\<forall>w p'. w \<notin> W \<longrightarrow> inventory_tbl (snd c') (w, p') = inventory_tbl (snd c) (w, p'))"
  using assms
proof (cases rule: conc_step.cases)
  case (step i ts st k st')
  with assms(2) have "touches_only W (ts ! i)" by auto
  with step prog_step_touches have "touches_only W k \<and>
      (\<forall>w p'. w \<notin> W \<longrightarrow> inventory_tbl st' (w, p') = inventory_tbl st (w, p'))" by blast
  with step assms(2) show ?thesis
    by (auto dest: set_update_subset_insert [THEN subsetD])
qed

lemma conc_reach_touches:
  assumes "conc_step\<^sup>*\<^sup>* c c'" "\<forall>p \<in> set (fst c). touches_only W p"
  shows "(\<forall>p \<in> set (fst c'). touches_only W p) \<and>
    (\<forall>w p'. w \<notin> W \<longrightarrow> inventory_tbl (snd c') (w, p') = inventory_tbl (snd c) (w, p'))"
  using assms
proof (induction rule: rtranclp_induct)
  case base
  then show ?case by simp
next
  case (step c1 c2)
  with conc_step_touches [of c1 c2 W] show ?case by auto
qed

subsection \<open>Conservation of stock with the units in flight\<close>

lemma quiet_in_flight: "quiet pr \<Longrightarrow> in_flight pr p = 0"
  by (cases pr rule: quiet.cases) auto

lemma quiet_sub_at: "quiet pr \<Longrightarrow> sub_at pr = None"
  by (cases pr rule: quiet.cases) auto

lemma quiet_bindp: "quiet m \<Longrightarrow> (\<And>a. quiet (f a)) \<Longrightarrow> quiet (bindp m f)"
  by (cases m rule: quiet.cases) auto

lemma bindp_sub_at: "(\<And>a. quiet (f a)) \<Longrightarrow> sub_at (bindp m f) = sub_at m"
  by (cases m rule: sub_at.cases) (auto dest: quiet_sub_at)

lemma staged_bindp:
  "staged W m \<Longrightarrow> (\<And>a. staged W (f a) \<and> quiet (f a)) \<Longrightarrow> staged W (bindp m f)"
proof (induction rule: staged.induct)
  case (stg_ret W a)
  then show ?case by simp
next
  case (stg_wh W k a b)
  then show ?case by (auto intro!: staged.intros quiet_bindp)
next
  case (stg_src W k w p)
  have "staged W (bindp (k r) f) \<and>
      (quiet (bindp (k r) f) \<or> (sub_at (bindp (k r) f) = Some (w, p) \<and> r \<noteq> None))" for r
    using stg_src(1) [of r] stg_src(2) bindp_sub_at [of f "k r"] quiet_bindp [of "k r" f] by auto
  then show ?case by (simp add: staged.stg_src)
next
  case (stg_cap W k w p)
  then show ?case by (auto intro!: staged.intros quiet_bindp)
next
  case (stg_status W k w p s)
  then show ?case by (auto intro!: staged.intros quiet_bindp)
next
  case (stg_sub f W t p q k)
  then show ?case by (auto intro!: staged.intros)
next
  case (stg_ups t W k p q)
  then show ?case by (auto intro!: staged.intros quiet_bindp)
next
  case (stg_sup W k sp)
  then show ?case by (auto intro!: staged.intros quiet_bindp)
next
  case (stg_ins W k sp a)
  then show ?case by (auto intro!: staged.intros quiet_bindp)
qed


lemma exec_write_dom:
  "inventory_tbl st x \<noteq> None \<Longrightarrow> inventory_tbl (exec_write st s) x \<noteq> None"
  by (cases s) (auto simp: gateway_simps)

lemma prog_step_dom:
  "prog_step st pr = Some (k, st') \<Longrightarrow> inventory_tbl st x \<noteq> None \<Longrightarrow> inventory_tbl st' x \<noteq> None"
  using exec_write_dom [of st x]
  by (cases pr) (auto split: sum.splits prod.splits dest: purchase_order_insert_tables)

lemma stock_in_update_quantity_sub:
  "finite W \<Longrightarrow> inventory_tbl st (f, p0) \<noteq> None \<Longrightarrow>
    stock_in W (update_quantity_sub st f p0 q) p = stock_in W st p - (if f \<in> W \<and> p0 = p then q else 0)"
proof -
  assume fin: "finite W" and row: "inventory_tbl st (f, p0) \<noteq> None"
  from row have "inv_qty (update_quantity_sub st f p0 q) = (inv_qty st)((f, p0) := inv_qty st (f, p0) - q)"
    by (rule inv_qty_update_quantity_sub)
  then show ?thesis using fin by (simp only: stock_in_def sum_fun_upd_pair) simp
qed

lemma stock_in_upsert_quantity_add:
  "finite W \<Longrightarrow>
    stock_in W (upsert_quantity_add st t p0 q) p = stock_in W st p + (if t \<in> W \<and> p0 = p then q else 0)"
  by (simp only: stock_in_def inv_qty_upsert_quantity_add sum_fun_upd_pair) simp

lemma stock_in_update_status: "stock_in W (update_status st w p0 s) p = stock_in W st p"
  by (simp add: stock_in_def)

lemma sub_at_in_flight: "sub_at pr = Some x \<Longrightarrow> in_flight pr p = 0"
  by (cases pr rule: sub_at.cases) auto

lemma quiet_ready: "quiet pr \<Longrightarrow> sub_ready st pr"
  by (simp add: sub_ready_def quiet_sub_at)

lemma prog_step_conserves:
  assumes "prog_step st pr = Some (k, st')" "staged W pr" "sub_ready st pr" "finite W"
  shows "staged W k \<and> sub_ready st' k \<and> stock_in W st' p + in_flight k p = stock_in W st p + in_flight pr p"
  using assms(2)
proof (cases rule: staged.cases)
  case (stg_ret a)
  with assms(1) show ?thesis by simp
next
  case (stg_wh k0 a b)
  with assms(1) show ?thesis by (auto simp: quiet_in_flight quiet_ready)
next
  case (stg_src k0 w p0)
  with assms(1) have k: "k = k0 (select_source_inventory st w p0)" and st': "st' = st" by auto
  from stg_src(2) [of "select_source_inventory st w p0"] have
    "staged W k \<and> (quiet k \<or> (sub_at k = Some (w, p0) \<and> select_source_inventory st w p0 \<noteq> None))"
    by (simp add: k)
  then consider "staged W k" "quiet k"
    | "staged W k" "sub_at k = Some (w, p0)" "select_source_inventory st w p0 \<noteq> None"
    by blast
  then show ?thesis
  proof cases
    case 1
    then show ?thesis using stg_src(1) st' by (simp add: quiet_in_flight quiet_ready)
  next
    case 2
    then show ?thesis using stg_src(1) st'
      by (auto simp: sub_at_in_flight sub_ready_def select_source_inventory_def split: option.splits)
  qed
next
  case (stg_cap k0 w p0)
  with assms(1) show ?thesis by (auto simp: quiet_in_flight quiet_ready)
next
  case (stg_status k0 w p0 s)
  with assms(1) show ?thesis by (auto simp: quiet_in_flight quiet_ready stock_in_update_status)
next
  case (stg_sub f t p0 q k0)
  with assms(1,3,4) show ?thesis
    by (auto simp: sub_ready_def stock_in_update_quantity_sub)
next
  case (stg_ups t p0 q k0)
  with assms(1,4) show ?thesis
    by (auto simp: quiet_in_flight quiet_ready stock_in_upsert_quantity_add)
next
  case (stg_sup k0 sp)
  with assms(1) show ?thesis by (auto simp: quiet_in_flight quiet_ready)
next
  case (stg_ins k0 sp a)
  with assms(1) show ?thesis
    by (auto simp: quiet_in_flight quiet_ready stock_in_def inv_qty_def
        split: sum.splits prod.splits dest!: purchase_order_insert_tables)
qed


lemma sub_ready_mono:
  "sub_ready st pr \<Longrightarrow> prog_step st pr0 = Some (k, st') \<Longrightarrow> sub_ready st' pr"
  by (auto simp: sub_ready_def dest: prog_step_dom split: option.splits)

lemma conc_step_conserves:
  assumes "conc_step c c'" "threads_ok W (snd c) (fst c)" "finite W"
  shows "threads_ok W (snd c') (fst c') \<and>
    stock_in W (snd c') p + in_flight_all (fst c') p = stock_in W (snd c) p + in_flight_all (fst c) p"
  using assms(1)
proof (cases rule: conc_step.cases)
  case (step i ts st k st')
  with assms(2) have i: "staged W (ts ! i)" "sub_ready st (ts ! i)" by (auto simp: threads_ok_def)
  from prog_step_conserves [OF step(4) i assms(3)] have
    k: "staged W k \<and> sub_ready st' k \<and> stock_in W st' p + in_flight k p = stock_in W st p + in_flight (ts ! i) p" .
  have "threads_ok W st' (ts[i := k])"
    using assms(2) step k by (auto simp: threads_ok_def intro: sub_ready_mono dest!: set_update_subset_insert [THEN subsetD])
  moreover have "stock_in W st' p + in_flight_all (ts[i := k]) p = stock_in W st p + in_flight_all ts p"
    using k step(3) by (simp add: in_flight_all_def sum_list_map_update)
  ultimately show ?thesis using step by simp
qed

lemma conc_reach_conserves:
  assumes "conc_step\<^sup>*\<^sup>* c c'" "threads_ok W (snd c) (fst c)" "finite W"
  shows "threads_ok W (snd c') (fst c') \<and>
    stock_in W (snd c') p + in_flight_all (fst c') p = stock_in W (snd c) p + in_flight_all (fst c) p"
  using assms(1,2)
proof (induction rule: rtranclp_induct)
  case base
  then show ?case by simp
next
  case (step c1 c2)
  with conc_step_conserves [of c1 c2 W p] assms(3) show ?case by auto
qed


lemma quiet_refresh: "quiet (refresh_prog ws p)"
  by (cases ws) simp_all

lemma staged_refresh: "staged W (refresh_prog ws p)"
  by (induction ws) (auto intro!: staged.intros simp: quiet_refresh split: option.splits sum.splits)

lemma staged_move:
  assumes "f \<in> W" "t \<in> W"
  shows "staged W (move_prog f t nm p q pname) \<and> sub_at (move_prog f t nm p q pname) = Some (f, p)"
proof -
  let ?c = "\<lambda>r. case r of
          Some e \<Rightarrow> Ret (Inl (Uncaught e))
        | None \<Rightarrow>
            (case (nm f, nm t) of
               (Some fn, Some tn) \<Rightarrow>
                 Ret (Inr \<lparr>entry_product_id = p, entry_product_name = pname,
                           entry_quantity = q, entry_from = fn, entry_to = tn\<rparr>)
             | _ \<Rightarrow> Ret (Inl (Uncaught KeyError)))"
  have c: "staged W (?c r) \<and> quiet (?c r)" for r
    by (auto intro: staged.intros split: option.splits)
  then have "staged W (bindp (refresh_prog [f, t] p) ?c)" and "quiet (bindp (refresh_prog [f, t] p) ?c)"
    by (blast intro: staged_bindp staged_refresh quiet_bindp quiet_refresh)+
  with assms show ?thesis
    unfolding move_prog_def by (auto intro!: staged.stg_sub staged.stg_ups)
qed

lemma staged_item:
  "f \<in> W \<Longrightarrow> t \<in> W \<Longrightarrow> staged W (item_prog f t nm it) \<and> quiet (item_prog f t nm it)"
  unfolding item_prog_def
  by (auto intro!: staged.intros simp: staged_move split: option.splits)

lemma staged_loop:
  "f \<in> W \<Longrightarrow> t \<in> W \<Longrightarrow> staged W (loop_prog f t nm its) \<and> quiet (loop_prog f t nm its)"
proof (induction its)
  case Nil
  then show ?case by (simp add: staged.stg_ret)
next
  case (Cons it its)
  have inner: "staged W (g r') \<and> quiet (g r')"
    if "g = (\<lambda>r'. case r' of Inl e \<Rightarrow> Ret (Inl e) | Inr xs \<Rightarrow> Ret (Inr (x # xs)))"
    for g :: "transfer_error + transfer_entry list \<Rightarrow> (transfer_error + transfer_entry list) prog" and x r'
    using that by (auto intro: staged.stg_ret split: sum.splits)
  have outer: "staged W (h r) \<and> quiet (h r)"
    if "h = (\<lambda>r. case r of Inl e \<Rightarrow> Ret (Inl e)
      | Inr x \<Rightarrow> bindp (loop_prog f t nm its) (\<lambda>r'. case r' of
           Inl e \<Rightarrow> Ret (Inl e) | Inr xs \<Rightarrow> Ret (Inr (x # xs))))" for h r
    using that Cons.IH Cons.prems inner
    by (auto intro: staged.stg_ret staged_bindp quiet_bindp split: sum.splits)
  with Cons.prems staged_item [of f W t nm it] show ?case
    by (simp del: bindp.simps) (blast intro: staged_bindp quiet_bindp)
qed

lemma quiet_transfer: "quiet (transfer_prog req)"
  by (simp add: transfer_prog_def split: option.splits)

lemma staged_transfer: "req_warehouses req \<subseteq> W \<Longrightarrow> staged W (transfer_prog req)"
  unfolding transfer_prog_def req_warehouses_def
  by (auto intro!: staged.intros simp: staged_loop split: option.splits)

subsection \<open>Properties of interleaved transfers\<close>

text \<open>
  A transfer request that runs alone under the interleaving semantics
  ends exactly as the sequential handler \<open>product_transfer\<close>: same response, same store.
\<close>

theorem conc_single_transfer:
  "conc_step\<^sup>*\<^sup>* ([transfer_prog req], st) ([Ret r], st') \<longleftrightarrow> product_transfer st req = (r, st')"
proof
  assume "conc_step\<^sup>*\<^sup>* ([transfer_prog req], st) ([Ret r], st')"
  then have "run_prog (transfer_prog req) st = (r, st')" by (rule single_reach_run) simp_all
  then show "product_transfer st req = (r, st')" by (simp add: run_transfer_prog)
next
  assume "product_transfer st req = (r, st')"
  then have "run_prog (transfer_prog req) st = (r, st')" by (simp add: run_transfer_prog)
  then show "conc_step\<^sup>*\<^sup>* ([transfer_prog req], st) ([Ret r], st')" by (rule run_single_reach)
qed

text \<open>
  C12 (safety). However the statements of concurrent transfers interleave, no inventory
  row of a warehouse that none of the requests names changes: the interference between
  requests stays within the warehouses they name.
\<close>

theorem conc_transfers_frame:
  assumes "conc_step\<^sup>*\<^sup>* (map transfer_prog reqs, st) (ts', st')"
    and "w \<notin> (\<Union>req \<in> set reqs. req_warehouses req)"
  shows "inventory_tbl st' (w, p) = inventory_tbl st (w, p)"
proof -
  let ?W = "\<Union>req \<in> set reqs. req_warehouses req"
  have "\<forall>p \<in> set (fst (map transfer_prog reqs, st)). touches_only ?W p"
    by (auto intro: touches_only_mono [OF touches_only_transfer])
  from conc_reach_touches [OF assms(1) this] assms(2) show ?thesis by auto
qed

text \<open>
  C13 (invariant). Concurrent transfers conserve stock once the units in flight are
  counted: in every configuration reachable by interleaving the statements of transfer
  requests, the stock of a product in a finite set \<open>W\<close> of warehouses holding all the
  warehouses the requests name, plus the units that running transfers have decremented
  and not yet added back, equals the stock at the start. Overdraft (C11) breaks
  non-negativity, never conservation.
\<close>

theorem conc_transfers_conserve:
  assumes "conc_step\<^sup>*\<^sup>* (map transfer_prog reqs, st) (ts', st')"
    and "finite W" and "\<forall>req \<in> set reqs. req_warehouses req \<subseteq> W"
  shows "stock_in W st' p + in_flight_all ts' p = stock_in W st p"
proof -
  have ok: "threads_ok W (snd (map transfer_prog reqs, st)) (fst (map transfer_prog reqs, st))"
    using assms(3) by (auto simp: threads_ok_def staged_transfer quiet_transfer quiet_ready)
  have "in_flight_all (map transfer_prog reqs) p = 0"
    by (induction reqs) (simp_all add: in_flight_all_def quiet_in_flight quiet_transfer)
  with conc_reach_conserves [OF assms(1) ok assms(2), of p] show ?thesis by simp
qed

end
