(* ===== verification/Liveness.thy ===== *)
theory Liveness
  imports Interleaving "HOL-Library.Multiset"
begin

text \<open>
  Termination and progress of concurrent requests. A request's handler is a program of
  statements whose continuations take the rows a read returns (theory
  \<open>GatewayProgram\<close>); every step of the interleaving \<open>conc_step\<close> replaces one running
  program by the continuation of its next statement. The continuation relation
  \<open>prog_sub\<close> is well founded (programs are finite trees, though infinitely branching),
  so the multiset of running programs decreases in the multiset extension of it at
  every step: no interleaving runs forever. A configuration with no step is one where
  every request has returned its response.
\<close>

text \<open>A program and the continuation of its next statement, for any rows read.\<close>

inductive prog_sub :: "'a prog \<Rightarrow> 'a prog \<Rightarrow> bool" where
  sub_wh: "prog_sub (k r) (ReadWh a b k)"
| sub_src: "prog_sub (k r) (ReadSrc w p k)"
| sub_cap: "prog_sub (k r) (ReadCap w p k)"
| sub_write: "prog_sub k (Write s k)"
| sub_sup: "prog_sub (k r) (ReadSup sp k)"
| sub_ins: "prog_sub (k r) (InsertPO sp a k)"

text \<open>A request that has returned its response.\<close>

fun finished :: "'a prog \<Rightarrow> bool" where
  "finished (Ret a) = True"
| "finished _ = False"

section \<open>Lemmas\<close>

lemma wf_prog_sub: "wf {(x, y). prog_sub x y}"
proof (rule wfUNIVI)
  fix P :: "'a prog \<Rightarrow> bool" and x :: "'a prog"
  assume "\<forall>x. (\<forall>y. (y, x) \<in> {(x, y). prog_sub x y} \<longrightarrow> P y) \<longrightarrow> P x"
  then have H: "\<And>x. (\<And>y. prog_sub y x \<Longrightarrow> P y) \<Longrightarrow> P x" by blast
  show "P x"
  proof (induction x)
    case (Ret a)
    show ?case by (rule H) (auto elim: prog_sub.cases)
  next
    case (ReadWh a b k)
    show ?case by (rule H) (use ReadWh.IH in \<open>auto elim: prog_sub.cases\<close>)
  next
    case (ReadSrc w p k)
    show ?case by (rule H) (use ReadSrc.IH in \<open>auto elim: prog_sub.cases\<close>)
  next
    case (ReadCap w p k)
    show ?case by (rule H) (use ReadCap.IH in \<open>auto elim: prog_sub.cases\<close>)
  next
    case (Write s k)
    show ?case by (rule H) (use Write.IH in \<open>auto elim: prog_sub.cases\<close>)
  next
    case (ReadSup sp k)
    show ?case by (rule H) (use ReadSup.IH in \<open>auto elim: prog_sub.cases\<close>)
  next
    case (InsertPO sp a k)
    show ?case by (rule H) (use InsertPO.IH in \<open>auto elim: prog_sub.cases\<close>)
  qed
qed

lemma prog_step_sub: "prog_step st pr = Some (k, st') \<Longrightarrow> prog_sub k pr"
  by (cases pr) (auto intro: prog_sub.intros split: sum.splits prod.splits)

lemma conc_step_mult:
  "conc_step c c' \<Longrightarrow> (mset (fst c'), mset (fst c)) \<in> mult {(x, y). prog_sub x y}"
proof (induction rule: conc_step.induct)
  case (step i ts st k st')
  have "(mset ts - {#ts ! i#} + {#k#}, mset ts - {#ts ! i#} + {#ts ! i#}) \<in> mult {(x, y). prog_sub x y}"
    using prog_step_sub [OF step(2)] by (intro one_step_implies_mult) auto
  moreover have "mset ts - {#ts ! i#} + {#ts ! i#} = mset ts" "mset ts - {#ts ! i#} + {#k#} = mset (ts[i := k])"
    using step(1) by (simp_all add: mset_update)
  ultimately show ?case by simp
qed

lemma conc_step_wf: "wf {(c', c). conc_step c c'}"
proof (rule wf_subset)
  show "wf (inv_image (mult {(x, y). prog_sub x y}) (\<lambda>c. mset (fst c)))"
    using wf_mult [OF wf_prog_sub] by (rule wf_inv_image)
  show "{(c', c). conc_step c c'} \<subseteq> inv_image (mult {(x, y). prog_sub x y}) (\<lambda>c. mset (fst c))"
    using conc_step_mult by auto
qed

lemma conc_step_progress: "(\<exists>c'. conc_step (ts, st) c') \<longleftrightarrow> \<not> list_all finished ts"
proof
  assume "\<exists>c'. conc_step (ts, st) c'"
  show "\<not> list_all finished ts"
  proof
    assume "list_all finished ts"
    then have "prog_step st (ts ! i) = None" if "i < length ts" for i
      using that nth_mem [OF that] by (cases "ts ! i") (auto simp: list_all_iff)
    then show False using \<open>\<exists>c'. conc_step (ts, st) c'\<close> by (auto elim!: conc_step.cases)
  qed
next
  assume "\<not> list_all finished ts"
  then obtain i where i: "i < length ts" "\<not> finished (ts ! i)"
    by (auto simp: list_all_iff in_set_conv_nth)
  then obtain k st' where "prog_step st (ts ! i) = Some (k, st')"
    by (cases "ts ! i") (auto simp: prod_eq_iff)
  then show "\<exists>c'. conc_step (ts, st) c'" using i(1) conc_step.step by blast
qed

lemma conc_reaches_finished: "\<exists>c'. conc_step\<^sup>*\<^sup>* c c' \<and> list_all finished (fst c')"
  using conc_step_wf
proof (induction c rule: wf_induct_rule)
  case (less c)
  obtain ts st where c: "c = (ts, st)" by (cases c)
  show ?case
  proof (cases "list_all finished ts")
    case True
    then show ?thesis using c by auto
  next
    case False
    then obtain c1 where s: "conc_step (ts, st) c1" using conc_step_progress by blast
    then obtain c' where "conc_step\<^sup>*\<^sup>* c1 c'" "list_all finished (fst c')"
      using less [of c1] c by auto
    then show ?thesis using s c by (meson converse_rtranclp_into_rtranclp)
  qed
qed


text \<open>
  Every interleaving of concurrent requests is finite: the step
  relation of the interleaving semantics, read backwards, is well founded, whatever the
  requests and the store.
\<close>

theorem conc_terminates: "wf {(c', c). conc_step c c'}"
  by (rule conc_step_wf)

text \<open>
  From every configuration the requests can run to one in which all of
  them have returned their response, and a configuration in which no request can take a
  step is exactly one in which all have returned: no interleaving deadlocks.
\<close>

theorem conc_all_answer:
  "(\<exists>c'. conc_step\<^sup>*\<^sup>* c c' \<and> list_all finished (fst c')) \<and>
   ((\<forall>c'. \<not> conc_step c c') \<longleftrightarrow> list_all finished (fst c))"
proof -
  obtain ts st where "c = (ts, st)" by (cases c)
  then show ?thesis using conc_reaches_finished [of c] conc_step_progress [of ts st] by auto
qed

end
