(* ===== verification/DbFaults.thy ===== *)
theory DbFaults
  imports Interleaving
begin

text \<open>
  Statements that fail. \<open>execute_query\<close> (\<open>src/server.py\<close>, lines 15--20) runs each
  statement in its own \<open>with sqlite3.connect(DATABASE) as conn\<close> block: the block commits
  when the statement succeeds and rolls back when it raises \<open>sqlite3.Error\<close> (a locked
  database, a full disk). So a statement that fails has no effect and every statement
  before it stays committed. \<open>run_fault k\<close> runs a program of \<open>GatewayProgram\<close> in which
  the statement numbered \<open>k\<close> (from 0) raises; \<open>product_transfer_fault\<close> is the transfer
  handler on such a gateway, where the error of the warehouse query (line 124, before the
  \<open>try\<close>) escapes and the errors of the loop are caught by \<open>except sqlite3.Error\<close>
  (lines 215--216). The lemmas characterise a failing run by the statements it commits
  and show what a failure costs the stock: the units the interrupted item had decremented
  and not yet added back.
\<close>

subsection \<open>Runs with a failing statement\<close>

primrec run_fault :: "nat \<Rightarrow> 'a prog \<Rightarrow> store \<Rightarrow> 'a option \<times> store" where
  "run_fault k (Ret a) st = (Some a, st)"
| "run_fault k (ReadWh a b c) st =
     (if k = 0 then (None, st) else run_fault (k - 1) (c (select_warehouses_in st a b)) st)"
| "run_fault k (ReadSrc w p c) st =
     (if k = 0 then (None, st) else run_fault (k - 1) (c (select_source_inventory st w p)) st)"
| "run_fault k (ReadCap w p c) st =
     (if k = 0 then (None, st) else run_fault (k - 1) (c (select_inventory_capacity st w p)) st)"
| "run_fault k (Write s c) st =
     (if k = 0 then (None, st) else run_fault (k - 1) c (exec_write st s))"
| "run_fault k (ReadSup sp c) st =
     (if k = 0 then (None, st) else run_fault (k - 1) (c (select_supplier_id st sp)) st)"
| "run_fault k (InsertPO sp a c) st =
     (if k = 0 then (None, st)
      else case purchase_order_insert st sp a of
             Inl e \<Rightarrow> run_fault (k - 1) (c (Inl e)) st
           | Inr (rows, st') \<Rightarrow> run_fault (k - 1) (c (Inr rows)) st')"

text \<open>How an exception of the gateway ends the transfer: caught by the handler
  (\<open>{'error': str(e)}\<close>, 500) or escaping it (Flask's 500).\<close>

datatype db_fail = CaughtDbError | UncaughtDbError

definition product_transfer_fault ::
  "nat \<Rightarrow> store \<Rightarrow> transfer_request \<Rightarrow> (db_fail + (transfer_error + transfer_entry list)) \<times> store" where
  "product_transfer_fault k st req =
     (case (from_warehouse req, to_warehouse req, products_to_get req) of
        (Some f, Some t, Some items) \<Rightarrow>
          (if f = t then (Inr (Inl SameWarehouse), st)
           else if \<not> (sqlite_int f \<and> sqlite_int t) then (Inr (Inl (Uncaught OverflowError)), st)
           else if k = 0 then (Inl UncaughtDbError, st)
           else let ws = select_warehouses_in st f t
                in if length ws \<noteq> 2 then (Inr (Inl WarehouseNotFound), st)
                   else (case run_fault (k - 1) (loop_prog f t (map_of ws) items) st of
                           (None, st') \<Rightarrow> (Inl CaughtDbError, st')
                         | (Some r, st') \<Rightarrow> (Inr r, st')))
      | _ \<Rightarrow> (Inr (Inl MissingFields), st))"

text \<open>
  \<open>create_purchase_order\<close> on a failing gateway: its statement 0 is the supplier read
  (line 80, before the \<open>try\<close>: the error escapes) and its statement 1 the insert (line 86,
  inside the \<open>try\<close>: \<open>except sqlite3.Error\<close> answers 400 with the message, lines 88--89).
\<close>

definition create_purchase_order_fault ::
  "nat \<Rightarrow> store \<Rightarrow> pyjson \<Rightarrow> (db_fail + (py_exc + response)) \<times> store" where
  "create_purchase_order_fault k st data =
     (case run_fault k (po_prog data) st of
        (Some r, st') \<Rightarrow> (Inr r, st')
      | (None, st') \<Rightarrow> (if k = 0 then Inl UncaughtDbError else Inl CaughtDbError, st'))"

text \<open>The statements a program runs alone, and the first \<open>k\<close> of them.\<close>

primrec stmt_count :: "'a prog \<Rightarrow> store \<Rightarrow> nat" where
  "stmt_count (Ret a) st = 0"
| "stmt_count (ReadWh a b c) st = Suc (stmt_count (c (select_warehouses_in st a b)) st)"
| "stmt_count (ReadSrc w p c) st = Suc (stmt_count (c (select_source_inventory st w p)) st)"
| "stmt_count (ReadCap w p c) st = Suc (stmt_count (c (select_inventory_capacity st w p)) st)"
| "stmt_count (Write s c) st = Suc (stmt_count c (exec_write st s))"
| "stmt_count (ReadSup sp c) st = Suc (stmt_count (c (select_supplier_id st sp)) st)"
| "stmt_count (InsertPO sp a c) st =
     Suc (case purchase_order_insert st sp a of
            Inl e \<Rightarrow> stmt_count (c (Inl e)) st
          | Inr (rows, st') \<Rightarrow> stmt_count (c (Inr rows)) st')"

fun run_steps :: "nat \<Rightarrow> 'a prog \<Rightarrow> store \<Rightarrow> 'a prog \<times> store" where
  "run_steps 0 p st = (p, st)"
| "run_steps (Suc k) p st = (case prog_step st p of None \<Rightarrow> (p, st) | Some (p', st') \<Rightarrow> run_steps k p' st')"

lemmas [eval_simps] = product_transfer_fault_def create_purchase_order_fault_def

subsection \<open>A failing run commits a prefix\<close>

lemma run_fault_char:
  "run_fault k p st =
     (if k < stmt_count p st then (None, snd (run_steps k p st))
      else (Some (fst (run_prog p st)), snd (run_prog p st)))"
  by (induction p arbitrary: k st) (auto simp: gr0_conv_Suc split: sum.splits prod.splits)

lemma run_steps_reach: "conc_step\<^sup>*\<^sup>* ([p], st) ([fst (run_steps k p st)], snd (run_steps k p st))"
proof (induction k p st rule: run_steps.induct)
  case (2 k p st)
  show ?case
  proof (cases "prog_step st p")
    case (Some x)
    obtain p' st' where x: "x = (p', st')" by (cases x)
    have "conc_step ([p], st) ([p'], st')" using conc_step.step [of 0 "[p]" st p' st'] Some x by simp
    with "2.IH" [OF Some x [symmetric]] Some x show ?thesis
      by (simp add: converse_rtranclp_into_rtranclp)
  qed simp
qed simp

lemma run_steps_conserves:
  assumes "staged W p" "quiet p" "finite W"
  shows "stock_in W (snd (run_steps k p st)) x + in_flight (fst (run_steps k p st)) x = stock_in W st x"
proof -
  have ok: "threads_ok W (snd ([p], st)) (fst ([p], st))"
    using assms(1,2) by (simp add: threads_ok_def quiet_ready)
  from conc_reach_conserves [OF run_steps_reach [of p st k] ok assms(3), where p = x] assms(2)
  show ?thesis by (simp add: in_flight_all_def quiet_in_flight)
qed

lemma transfer_fault_complete:
  "stmt_count (transfer_prog req) st \<le> k \<Longrightarrow>
   product_transfer_fault k st req = (Inr (fst (product_transfer st req)), snd (product_transfer st req))"
  by (auto simp: product_transfer_fault_def product_transfer_def transfer_prog_def run_fault_char
      run_loop_prog [symmetric] Let_def split: option.splits prod.splits)

lemma transfer_fault_error:
  "product_transfer_fault k st req = (Inl e, st') \<Longrightarrow>
   k < stmt_count (transfer_prog req) st \<and> st' = snd (run_steps k (transfer_prog req) st)"
  by (cases k) (auto simp: product_transfer_fault_def transfer_prog_def run_fault_char
      Let_def split: option.splits prod.splits if_splits)


lemma po_fault_complete:
  "stmt_count (po_prog data) st \<le> k \<Longrightarrow>
   create_purchase_order_fault k st data = (Inr (fst (create_purchase_order st data)), snd (create_purchase_order st data))"
  by (simp add: create_purchase_order_fault_def run_fault_char run_po_prog)

lemma po_prog_steps_store:
  "k < stmt_count (po_prog data) st \<Longrightarrow> snd (run_steps k (po_prog data) st) = st"
  by (cases k) (auto simp: po_prog_def Let_def numeral_2_eq_2 less_Suc_eq
      split: pyjson.splits sum.splits list.splits prod.splits if_splits)

lemma po_fault_unchanged:
  "create_purchase_order_fault k st data = (Inl e, st') \<Longrightarrow> st' = st"
  by (auto simp: create_purchase_order_fault_def run_fault_char po_prog_steps_store split: if_splits)

subsection \<open>What a failure costs\<close>

text \<open>
  C25 (error). When a statement of the transfer raises \<open>sqlite3.Error\<close>, whether the
  handler catches it (500 with the message) or not, the store is exactly the one its
  earlier statements committed, and the stock of each product over any finite set of
  warehouses holding the request's two is the initial stock less the units the
  interrupted item had decremented and not yet added back: a failure of the upsert
  after the decrement of the source loses the item's quantity.
\<close>

theorem transfer_db_error_in_flight:
  assumes "product_transfer_fault k st req = (Inl e, st')" "finite W" "req_warehouses req \<subseteq> W"
  shows "k < stmt_count (transfer_prog req) st \<and> st' = snd (run_steps k (transfer_prog req) st) \<and>
    stock_in W st' p + in_flight (fst (run_steps k (transfer_prog req) st)) p = stock_in W st p"
  using transfer_fault_error [OF assms(1)]
    run_steps_conserves [OF staged_transfer [OF assms(3)] quiet_transfer assms(2), of k st p]
  by simp

end
