(* ===== verification/Requests.thy ===== *)
theory Requests
  imports Interleaving
begin

text \<open>
  The two handlers that write, side by side. Flask dispatches a \<open>PUT\<close> on
  \<open>/v1/warehouse/transfer/\<close> to \<open>product_transfer\<close> (line 111) and a \<open>POST\<close> on
  \<open>/v1/administrative/purchase_order/create/\<close> to \<open>create_purchase_order\<close> (line 66);
  \<open>request\<close> is such a request, \<open>handle_request\<close> its handler run alone and
  \<open>req_prog\<close> its handler as a program of statements, so that transfers and
  purchase-order creations interleave under \<open>conc_step\<close>. The lemmas show that the
  programs are the handlers, that interleaved orders leave the stock of the transfers
  conserved, and that the integrity of the \<open>PurchaseOrder\<close> table (\<open>po_ok\<close>) holds in
  every interleaving: a supplier read and the insert it guards are separate statements,
  but no request deletes a supplier, and each insert takes its id when it runs.
\<close>

datatype request = TransferReq transfer_request | OrderReq pyjson

type_synonym request_result = "(transfer_error + transfer_entry list) + (py_exc + response)"

definition handle_request :: "store \<Rightarrow> request \<Rightarrow> request_result \<times> store" where
  "handle_request st r =
     (case r of
        TransferReq q \<Rightarrow> (case product_transfer st q of (x, st') \<Rightarrow> (Inl x, st'))
      | OrderReq d \<Rightarrow> (case create_purchase_order st d of (x, st') \<Rightarrow> (Inr x, st')))"

definition req_prog :: "request \<Rightarrow> request_result prog" where
  "req_prog r =
     (case r of
        TransferReq q \<Rightarrow> bindp (transfer_prog q) (\<lambda>x. Ret (Inl x))
      | OrderReq d \<Rightarrow> bindp (po_prog d) (\<lambda>x. Ret (Inr x)))"

text \<open>The inventory rows a request may write: none for an order.\<close>

definition req_wh :: "request \<Rightarrow> wid set" where
  "req_wh r = (case r of TransferReq q \<Rightarrow> req_warehouses q | OrderReq d \<Rightarrow> {})"

text \<open>
  A program whose inserts are guarded: an insert of a purchase order for the bound
  supplier value \<open>sp\<close> comes only after a read that found \<open>sp\<close> among the suppliers of
  \<open>st0\<close>, the store whose supplier table every later store shares.
\<close>

inductive po_safe :: "store \<Rightarrow> 'a prog \<Rightarrow> bool" where
  ps_ret: "po_safe st0 (Ret a)"
| ps_wh: "(\<And>r. po_safe st0 (k r)) \<Longrightarrow> po_safe st0 (ReadWh a b k)"
| ps_src: "(\<And>r. po_safe st0 (k r)) \<Longrightarrow> po_safe st0 (ReadSrc w p k)"
| ps_cap: "(\<And>r. po_safe st0 (k r)) \<Longrightarrow> po_safe st0 (ReadCap w p k)"
| ps_write: "po_safe st0 k \<Longrightarrow> po_safe st0 (Write s k)"
| ps_sup: "po_safe st0 (k (select_supplier_id st0 sp)) \<Longrightarrow> po_safe st0 (ReadSup sp k)"
| ps_ins: "select_supplier_id st0 sp \<noteq> [] \<Longrightarrow> (\<And>r. po_safe st0 (k r)) \<Longrightarrow> po_safe st0 (InsertPO sp a k)"

lemmas [eval_simps] = handle_request_def req_prog_def req_wh_def

subsection \<open>The programs are the handlers\<close>

lemma run_req_prog: "run_prog (req_prog r) st = handle_request st r"
  by (cases r) (simp_all add: req_prog_def handle_request_def run_bindp run_transfer_prog run_po_prog
      split: prod.splits)

subsection \<open>Stock under interleaved orders\<close>

lemma staged_po: "staged W (po_prog d) \<and> quiet (po_prog d)"
  unfolding po_prog_def
  by (auto intro!: staged.intros simp: Let_def split: pyjson.splits sum.splits list.splits)

lemma staged_req: "req_wh r \<subseteq> W \<Longrightarrow> staged W (req_prog r) \<and> quiet (req_prog r)"
  by (cases r) (auto simp: req_prog_def req_wh_def staged_transfer quiet_transfer staged_po
      intro!: staged_bindp quiet_bindp staged.stg_ret)

lemma conc_requests_conserve:
  assumes "conc_step\<^sup>*\<^sup>* (map req_prog rs, st) (ts', st')"
    and "finite W" and "\<forall>r \<in> set rs. req_wh r \<subseteq> W"
  shows "stock_in W st' p + in_flight_all ts' p = stock_in W st p"
proof -
  have ok: "threads_ok W (snd (map req_prog rs, st)) (fst (map req_prog rs, st))"
    using assms(3) staged_req by (auto simp: threads_ok_def quiet_ready)
  have "in_flight_all (map req_prog rs) p = 0"
    using staged_req [of _ UNIV] by (induction rs) (simp_all add: in_flight_all_def quiet_in_flight)
  with conc_reach_conserves [OF assms(1) ok assms(2), of p] show ?thesis by simp
qed

subsection \<open>Purchase orders under interleaving\<close>

lemma select_supplier_id_cong:
  assumes "supplier_tbl st = supplier_tbl st0"
  shows "select_supplier_id st sp = select_supplier_id st0 sp"
  unfolding select_supplier_id_def assms by (rule refl)

lemma po_safe_bindp: "po_safe st0 m \<Longrightarrow> (\<And>a. po_safe st0 (f a)) \<Longrightarrow> po_safe st0 (bindp m f)"
  by (induction rule: po_safe.induct) (auto intro: po_safe.intros)

lemma po_safe_touches: "touches_only W p \<Longrightarrow> po_safe st0 p"
  by (induction rule: touches_only.induct) (auto intro: po_safe.intros)

lemma po_safe_po: "po_safe st0 (po_prog d)"
  unfolding po_prog_def
  by (auto intro!: po_safe.intros simp: Let_def split: pyjson.splits sum.splits list.splits)

lemma po_safe_req: "po_safe st0 (req_prog r)"
  by (cases r) (auto simp: req_prog_def intro!: po_safe_bindp po_safe_po po_safe.ps_ret
      po_safe_touches [OF touches_only_transfer])

lemma exec_write_po: "supplier_tbl (exec_write st s) = supplier_tbl st \<and>
    purchase_order_tbl (exec_write st s) = purchase_order_tbl st"
  by (metis exec_write_inventory_only store.select_convs(3,6) store.surjective store.update_convs(4))

lemma po_ok_step:
  assumes "prog_step st pr = Some (k, st')" "po_safe st0 pr" "supplier_tbl st = supplier_tbl st0" "po_ok st"
  shows "po_safe st0 k \<and> supplier_tbl st' = supplier_tbl st0 \<and> po_ok st'"
  using assms(2)
proof (cases rule: po_safe.cases)
  case (ps_write k0 s)
  with assms(1,3,4) show ?thesis by (auto simp: po_ok_def exec_write_po)
next
  case (ps_sup k0 sp)
  with assms(1,3,4) show ?thesis by (simp add: select_supplier_id_cong [OF assms(3)])
next
  case (ps_ins sp k0 a)
  have sup: "select_supplier_id st sp \<noteq> []" using ps_ins(2) select_supplier_id_cong [OF assms(3)] by simp
  show ?thesis
  proof (cases "purchase_order_insert st sp a")
    case (Inl e)
    with assms(1,3,4) ps_ins show ?thesis by auto
  next
    case (Inr x)
    obtain rows st1 where x: "x = (rows, st1)" by (cases x)
    with Inr assms(1) ps_ins have "k = k0 (Inr rows)" "st' = st1" by simp_all
    with Inr x ps_ins(3) assms(3) purchase_order_insert_po_ok [OF assms(4) sup]
      purchase_order_insert_tables [of st sp a rows st1] show ?thesis by simp
  qed
qed (use assms(1,3,4) in auto)

lemma conc_po_ok:
  assumes "conc_step\<^sup>*\<^sup>* c c'" "\<forall>pr \<in> set (fst c). po_safe st0 pr"
    "supplier_tbl (snd c) = supplier_tbl st0" "po_ok (snd c)"
  shows "(\<forall>pr \<in> set (fst c'). po_safe st0 pr) \<and> supplier_tbl (snd c') = supplier_tbl st0 \<and> po_ok (snd c')"
  using assms(1)
proof (induction rule: rtranclp_induct)
  case base
  then show ?case using assms(2-4) by simp
next
  case (step c1 c2)
  note IH = step.IH
  from step.hyps(2) show ?case
  proof (cases rule: conc_step.cases)
    case (step i ts st k st')
    with IH have "po_safe st0 (ts ! i)" by auto
    from po_ok_step [OF step(4) this] IH step(1,2)
    have "po_safe st0 k \<and> supplier_tbl st' = supplier_tbl st0 \<and> po_ok st'" by simp
    with IH step(1,2) show ?thesis by (auto dest!: set_update_subset_insert [THEN subsetD])
  qed
qed

end
