(* ===== verification/StatusBounds.thy ===== *)
theory StatusBounds
  imports Complex_Main WarehouseTransfer
begin

text \<open>
  Error analysis of the capacity status of \<open>product_transfer\<close> (\<open>src/server.py\<close>,
  lines 191--192). The data model defines the status by the exact comparison
  \<open>100 * quantity > capacity_percentage * max_capacity\<close>; the code computes
  \<open>(current_qty / max_capacity) * 100 > threshold\<close> in doubles, rounding twice. The
  lemmas bound each rounding of \<open>PyFloat\<close> by half an ulp (\<open>round_ratio_err\<close>: relative
  error \<open>2^-53\<close> plus the subnormal floor \<open>2^-1075\<close>), show that no overflow occurs
  below \<open>2^1023\<close>, and read \<open>py_gt_int\<close> as the real comparison. The result: the
  float status is the exact one everywhere except on the boundary itself, for
  quantities below \<open>2^44\<close> and capacities below SQLite's \<open>2^63\<close>.
\<close>

subsection \<open>Bit length and rounding of a ratio\<close>

lemma nbits_bounds: "0 < n \<Longrightarrow> 2 ^ (nbits n - 1) \<le> n \<and> n < 2 ^ nbits n"
proof (induction n rule: nbits.induct)
  case (1 n)
  show ?case
  proof (cases "n = 1")
    case True
    then show ?thesis by simp
  next
    case False
    with "1.prems" have n2: "0 < n div 2" by simp
    with "1.IH" "1.prems" have ih: "2 ^ (nbits (n div 2) - 1) \<le> n div 2 \<and> n div 2 < 2 ^ nbits (n div 2)"
      by simp
    have nb: "nbits n = Suc (nbits (n div 2))" using "1.prems" by (simp add: nbits.simps [of n])
    have pos: "0 < nbits (n div 2)" using n2 by (simp add: nbits.simps [of "n div 2"])
    from ih have "2 * 2 ^ (nbits (n div 2) - 1) \<le> n" by linarith
    moreover from ih have "n < 2 * 2 ^ nbits (n div 2)" by linarith
    ultimately show ?thesis using nb pos
      by (simp add: power_Suc [symmetric] del: power_Suc)
  qed
qed

lemma rdiv_even_err:
  assumes "0 < y"
  shows "\<bar>real (rdiv_even x y) - real x / real y\<bar> \<le> 1 / 2"
proof -
  define q r where "q = x div y" and "r = x mod y"
  have x: "real x = real q * real y + real r" unfolding q_def r_def
    by (metis of_nat_add of_nat_mult div_mult_mod_eq)
  have ry: "r < y" using assms by (simp add: r_def)
  have xy: "real x / real y = real q + real r / real y"
    using assms by (simp add: x field_simps)
  show ?thesis
  proof (cases "2 * r < y")
    case True
    then have "rdiv_even x y = q" by (simp add: rdiv_even_def q_def r_def Let_def)
    moreover have "real r / real y \<le> 1 / 2" using True assms by (simp add: field_simps)
    ultimately show ?thesis using xy by simp
  next
    case False
    then have "rdiv_even x y = q \<or> rdiv_even x y = Suc q" by (auto simp: rdiv_even_def q_def r_def Let_def)
    moreover have "1 / 2 \<le> real r / real y" "real r / real y < 1" using False assms ry by (simp_all add: field_simps)
    moreover have "y < 2 * r \<Longrightarrow> rdiv_even x y = Suc q"
      by (simp add: rdiv_even_def q_def r_def Let_def)
    moreover have "rdiv_even x y = q \<Longrightarrow> 2 * r = y"
      using False by (auto simp: rdiv_even_def q_def r_def Let_def split: if_splits)
    ultimately show ?thesis using xy assms by (auto simp: field_simps)
  qed
qed


lemma powr_int_nat: "(2::real) powr real_of_int (int j) = 2 ^ j"
  by (simp add: powr_realpow)

lemma pow2_le_iff:
  assumes "0 < b"
  shows "pow2_le k n b \<longleftrightarrow> 2 powr real_of_int k \<le> real n / real b"
proof (cases "0 \<le> k")
  case True
  then have p: "2 powr real_of_int k = 2 ^ nat k" by (metis powr_int_nat int_nat_eq)
  have "b * 2 ^ nat k \<le> n \<longleftrightarrow> real b * 2 ^ nat k \<le> real n"
    using of_nat_le_iff [of "b * 2 ^ nat k" n, where 'a = real] by simp
  with True p assms show ?thesis by (simp add: pow2_le_def pos_le_divide_eq mult.commute)
next
  case False
  then have p: "2 powr real_of_int k = 1 / 2 ^ nat (- k)"
    by (simp add: powr_minus_divide [symmetric] powr_realpow [symmetric])
  have "b \<le> n * 2 ^ nat (- k) \<longleftrightarrow> real b \<le> real n * 2 ^ nat (- k)"
    using of_nat_le_iff [of b "n * 2 ^ nat (- k)", where 'a = real] by simp
  moreover have "1 / 2 ^ nat (- k) \<le> real n / real b \<longleftrightarrow> real b \<le> real n * 2 ^ nat (- k)"
    using assms by (simp add: le_divide_eq divide_le_eq)
  ultimately show ?thesis using False p by (simp add: pow2_le_def)
qed

lemma real_nbits_bounds:
  "0 < n \<Longrightarrow> 2 ^ (nbits n - 1) \<le> real n \<and> real n < 2 ^ nbits n"
  using nbits_bounds [of n] of_nat_le_iff [of "2 ^ (nbits n - 1)" n, where 'a = real]
    of_nat_less_iff [of n "2 ^ nbits n", where 'a = real]
  by simp

lemma ratio_pow2_bounds:
  assumes "0 < n" "0 < b"
  shows "2 powr (real_of_int (int (nbits n) - int (nbits b)) - 1) < real n / real b \<and>
    real n / real b < 2 powr (real_of_int (int (nbits n) - int (nbits b)) + 1)"
proof -
  from real_nbits_bounds [OF assms(1)] have n1: "2 ^ (nbits n - 1) \<le> real n" "real n < 2 ^ nbits n"
    by simp_all
  from real_nbits_bounds [OF assms(2)] have b1: "2 ^ (nbits b - 1) \<le> real b" "real b < 2 ^ nbits b"
    by simp_all
  have nn: "0 < nbits n" "0 < nbits b" using nbits_bounds [OF assms(1)] nbits_bounds [OF assms(2)]
    by (auto intro!: Nat.gr0I)
  have e1: "(2::real) powr (real_of_int (int (nbits n) - int (nbits b)) - 1) = 2 ^ (nbits n - 1) / 2 ^ nbits b"
  proof -
    have ex: "real_of_int (int (nbits n) - int (nbits b)) - 1 = real (nbits n - 1) - real (nbits b)"
      using nn by simp
    show ?thesis unfolding ex powr_diff by (simp only: powr_realpow zero_less_numeral)
  qed
  have e2: "(2::real) powr (real_of_int (int (nbits n) - int (nbits b)) + 1) = 2 ^ nbits n / 2 ^ (nbits b - 1)"
  proof -
    have ex: "real_of_int (int (nbits n) - int (nbits b)) + 1 = real (nbits n) - real (nbits b - 1)"
      using nn by simp
    show ?thesis unfolding ex powr_diff by (simp only: powr_realpow zero_less_numeral)
  qed
  have "2 ^ (nbits n - 1) / 2 ^ nbits b < real n / real b"
    by (rule frac_less2) (use n1 b1 assms in auto)
  moreover have "real n / real b < 2 ^ nbits n / 2 ^ (nbits b - 1)"
    by (rule frac_less) (use n1 b1 assms in auto)
  ultimately show ?thesis using e1 e2 by simp
qed


lemma two_powr_int: "(2::real) powr real_of_int e = (if 0 \<le> e then 2 ^ nat e else 1 / 2 ^ nat (- e))"
proof (cases "0 \<le> e")
  case True
  then show ?thesis by (metis powr_int_nat int_nat_eq)
next
  case False
  then have "(2::real) powr real_of_int e = 1 / 2 powr real_of_int (int (nat (- e)))"
    by (simp add: powr_minus_divide [symmetric])
  with False show ?thesis by (simp only: powr_int_nat if_False)
qed

lemma scaled_ratio:
  assumes "0 < y"
  shows "real (x * 2 ^ nat (- e)) / real (y * 2 ^ nat e) = real x / real y * 2 powr real_of_int (- e)"
  using assms two_powr_int [of "- e"] by (cases "0 \<le> e") (auto simp: field_simps)

lemma round_ratio_lg:
  assumes "0 < n" "0 < b"
  defines "k \<equiv> int (nbits n) - int (nbits b)"
  defines "lg \<equiv> if pow2_le k n b then k else k - 1"
  shows "2 powr real_of_int lg \<le> real n / real b \<and> real n / real b < 2 powr (real_of_int lg + 1)"
proof (cases "pow2_le k n b")
  case True
  with ratio_pow2_bounds [OF assms(1,2)] pow2_le_iff [OF assms(2)] show ?thesis
    by (simp add: lg_def k_def)
next
  case False
  with ratio_pow2_bounds [OF assms(1,2)] pow2_le_iff [OF assms(2), of k n] show ?thesis
    by (simp add: lg_def k_def)
qed


lemma round_ratio_err:
  assumes b: "0 < b" and r: "round_ratio n b = (m, e)"
  shows "\<bar>real m * 2 powr real_of_int e - real n / real b\<bar> \<le> real n / real b / 2 ^ 53 + 2 powr - 1075"
proof (cases "n = 0")
  case True
  with r show ?thesis by (simp add: round_ratio_def)
next
  case False
  then have n: "0 < n" by simp
  define k where "k = int (nbits n) - int (nbits b)"
  define lg where "lg = (if pow2_le k n b then k else k - 1)"
  have rr: "round_ratio n b = (rdiv_even (n * 2 ^ nat (- max (lg - 52) (- 1074)))
      (b * 2 ^ nat (max (lg - 52) (- 1074))), max (lg - 52) (- 1074))"
    using False by (simp add: round_ratio_def Let_def lg_def k_def)
  with r have e: "e = max (lg - 52) (- 1074)" by simp
  with r rr have m: "m = rdiv_even (n * 2 ^ nat (- e)) (b * 2 ^ nat e)" by simp
  have lgb: "2 powr real_of_int lg \<le> real n / real b"
    using round_ratio_lg [OF n b] unfolding lg_def k_def by blast
  define X where "X = real m - real n / real b * 2 powr real_of_int (- e)"
  have h1: "\<bar>X\<bar> \<le> 1 / 2"
    using rdiv_even_err [of "b * 2 ^ nat e" "n * 2 ^ nat (- e)"] b
    unfolding X_def by (simp add: m scaled_ratio [OF b] del: of_nat_mult)
  have eq: "X * 2 powr real_of_int e = real m * 2 powr real_of_int e - real n / real b"
    unfolding X_def by (simp add: left_diff_distrib mult.assoc powr_add [symmetric])
  have "\<bar>real m * 2 powr real_of_int e - real n / real b\<bar> = \<bar>X\<bar> * 2 powr real_of_int e"
    unfolding eq [symmetric] abs_mult by simp
  also have "\<dots> \<le> 1 / 2 * 2 powr real_of_int e"
    by (rule mult_right_mono [OF h1]) simp
  also have "1 / 2 * 2 powr real_of_int e = 2 powr (real_of_int e - 1)"
    by (simp add: powr_diff)
  finally have err: "\<bar>real m * 2 powr real_of_int e - real n / real b\<bar> \<le> 2 powr (real_of_int e - 1)" .
  show ?thesis
  proof (cases "lg - 52 \<le> - 1074")
    case True
    then have "e = - 1074" using e by simp
    then have "real_of_int e - 1 = - 1075" by simp
    then have "2 powr (real_of_int e - 1) = 2 powr - 1075" by (simp only:)
    moreover have "0 \<le> real n / real b / 2 ^ 53" by simp
    ultimately show ?thesis using err by linarith
  next
    case False
    then have "e = lg - 52" using e by simp
    then have "2 powr (real_of_int e - 1) = 2 powr real_of_int lg / 2 ^ 53"
      by (simp add: powr_diff powr_realpow [symmetric])
    moreover have "2 powr real_of_int lg / 2 ^ 53 \<le> real n / real b / 2 ^ 53"
      using lgb by (rule divide_right_mono) simp
    moreover have "0 \<le> (2::real) powr - 1075" by simp
    ultimately show ?thesis using err by linarith
  qed
qed


lemma eta_small: "(2::real) powr - 1075 \<le> 1 / 2 ^ 80"
proof -
  have "(2::real) powr - 1075 \<le> 2 powr - 80" by (intro powr_mono) simp_all
  also have "(2::real) powr - 80 = 1 / 2 ^ 80"
    by (simp add: powr_minus_divide powr_realpow [symmetric])
  finally show ?thesis .
qed

subsection \<open>Overflow and the three float operations\<close>

lemma too_large_val:
  assumes "too_large m e"
  shows "2 powr 1024 \<le> real m * 2 powr real_of_int e"
proof -
  from assms have m: "0 < m" and big: "1024 \<le> int (nbits m - 1) + e"
    using nbits_bounds [of m] by (auto simp: too_large_def)
  have "(2::real) powr 1024 \<le> 2 powr (real (nbits m - 1) + real_of_int e)"
    using big by (intro powr_mono) linarith+
  also have "\<dots> = 2 ^ (nbits m - 1) * 2 powr real_of_int e"
    by (simp add: powr_add powr_realpow)
  also have "\<dots> \<le> real m * 2 powr real_of_int e"
    using real_nbits_bounds [OF m] by (intro mult_right_mono) simp_all
  finally show ?thesis .
qed

lemma round_ratio_upper:
  assumes "0 < b" "round_ratio n b = (m, e)"
  shows "real m * 2 powr real_of_int e \<le> real n / real b * (1 + 1 / 2 ^ 53) + 2 powr - 1075"
  using round_ratio_err [OF assms] by (simp add: abs_le_iff algebra_simps)

lemma py_truediv_val:
  assumes "0 \<le> a" "0 < b" "real_of_int a / real_of_int b < 2 powr 1023"
  shows "\<exists>m e. py_truediv a b = Inr (PFin (int m) e) \<and>
    \<bar>real m * 2 powr real_of_int e - real_of_int a / real_of_int b\<bar>
      \<le> real_of_int a / real_of_int b / 2 ^ 53 + 2 powr - 1075"
proof -
  obtain m e where r: "round_ratio (nat a) (nat b) = (m, e)" by fastforce
  have q: "real (nat a) / real (nat b) = real_of_int a / real_of_int b" using assms by simp
  have nb: "0 < nat b" using assms by simp
  have "real m * 2 powr real_of_int e < 2 powr 1024"
  proof -
    have "real m * 2 powr real_of_int e \<le> real_of_int a / real_of_int b * (1 + 1 / 2 ^ 53) + 2 powr - 1075"
      using round_ratio_upper [OF nb r] q by simp
    moreover have "(2::real) powr - 1075 \<le> 1" using eta_small by simp
    moreover have "(2::real) powr 1024 = 2 * 2 powr 1023" by (simp add: powr_add [symmetric])
    moreover have "0 \<le> real_of_int a / real_of_int b" using assms by simp
    moreover have "(1::real) \<le> 2 powr 1023" by (rule ge_one_powr_ge_zero) simp_all
    ultimately show ?thesis using assms(3) by (simp add: algebra_simps)
  qed
  then have "\<not> too_large m e" using too_large_val [of m e] by linarith
  moreover have "py_truediv a b = (if too_large m e then Inl OverflowError else Inr (PFin (int m) e))"
    using assms r by (simp add: py_truediv_def)
  ultimately show ?thesis using round_ratio_err [OF nb r] q by auto
qed


lemma mul_operands:
  assumes "(if 0 \<le> e then (m * c * 2 ^ nat e, 1) else (m * c, 2 ^ nat (- e))) = (n, b)"
  shows "0 < b \<and> real n / real b = real m * 2 powr real_of_int e * real c"
proof (cases "0 \<le> e")
  case True
  with assms show ?thesis using two_powr_int [of e] by auto
next
  case False
  with assms show ?thesis using two_powr_int [of e] by auto
qed

lemma py_mul_pos_val:
  assumes "0 < c" "real m * 2 powr real_of_int e * real c < 2 powr 1023"
  shows "\<exists>m' e'. py_mul_pos (PFin (int m) e) c = PFin (int m') e' \<and>
    \<bar>real m' * 2 powr real_of_int e' - real m * 2 powr real_of_int e * real c\<bar>
      \<le> real m * 2 powr real_of_int e * real c / 2 ^ 53 + 2 powr - 1075"
proof -
  obtain n b where o: "(if 0 \<le> e then (m * c * 2 ^ nat e, 1::nat) else (m * c, 2 ^ nat (- e))) = (n, b)"
    by fastforce
  from mul_operands [OF o] have b: "0 < b" and nb: "real n / real b = real m * 2 powr real_of_int e * real c"
    by simp_all
  obtain m' e' where r: "round_ratio n b = (m', e')" by fastforce
  have "real m' * 2 powr real_of_int e' < 2 powr 1024"
  proof -
    have "real m' * 2 powr real_of_int e' \<le> real m * 2 powr real_of_int e * real c * (1 + 1 / 2 ^ 53) + 2 powr - 1075"
      using round_ratio_upper [OF b r] nb by simp
    moreover have "(2::real) powr - 1075 \<le> 1" using eta_small by simp
    moreover have "(2::real) powr 1024 = 2 * 2 powr 1023" by (simp add: powr_add [symmetric])
    moreover have "0 \<le> real m * 2 powr real_of_int e * real c" by simp
    moreover have "(1::real) \<le> 2 powr 1023" by (rule ge_one_powr_ge_zero) simp_all
    ultimately show ?thesis using assms(2) by (simp add: algebra_simps)
  qed
  then have "\<not> too_large m' e'" using too_large_val [of m' e'] by linarith
  moreover have "py_mul_pos (PFin (int m) e) c = (if too_large m' e' then PInf True else PFin (int m') e')"
    using o r by (cases "0 \<le> e") (simp_all add: Let_def)
  ultimately show ?thesis using round_ratio_err [OF b r] nb by auto
qed

lemma py_gt_int_val:
  "py_gt_int (PFin M e) t \<longleftrightarrow> real_of_int t < real_of_int M * 2 powr real_of_int e"
proof (cases "0 \<le> e")
  case True
  then have "real_of_int t < real_of_int M * 2 powr real_of_int e \<longleftrightarrow> real_of_int t < real_of_int (M * 2 ^ nat e)"
    using two_powr_int [of e] by simp
  with True show ?thesis by (simp only: py_gt_int.simps if_True of_int_less_iff)
next
  case False
  then have "2 powr real_of_int e = 1 / 2 ^ nat (- e)" by (simp only: two_powr_int if_False simp_thms)
  then have "real_of_int t < real_of_int M * 2 powr real_of_int e \<longleftrightarrow> real_of_int (t * 2 ^ nat (- e)) < real_of_int M"
    by (simp add: less_divide_eq)
  with False show ?thesis by (simp only: py_gt_int.simps if_False of_int_less_iff)
qed


subsection \<open>The status off the boundary\<close>

lemma two_pow_le_powr: "(2::real) ^ 60 \<le> 2 powr 1023"
proof -
  have "(2::real) ^ 60 = 2 powr 60" by (simp add: powr_realpow)
  also have "\<dots> \<le> 2 powr 1023" by (intro powr_mono) simp_all
  finally show ?thesis .
qed

lemma ratio_facts:
  assumes "0 \<le> qty" "qty < 2 ^ 44" "0 < maxc" "maxc < 2 ^ 63"
  shows "real_of_int qty / real_of_int maxc \<le> 2 ^ 44 * (1 / real_of_int maxc) \<and>
    (2::real) powr - 1075 \<le> 1 / real_of_int maxc / 2 ^ 17 \<and>
    0 \<le> real_of_int qty / real_of_int maxc \<and> real_of_int qty / real_of_int maxc < 2 ^ 44"
proof -
  have m: "0 < real_of_int maxc" "real_of_int maxc < 2 ^ 63" using assms by simp_all
  have q: "0 \<le> real_of_int qty" "real_of_int qty < 2 ^ 44" using assms by simp_all
  have a: "real_of_int qty / real_of_int maxc \<le> 2 ^ 44 * (1 / real_of_int maxc)"
    using q m by (simp add: divide_right_mono)
  have "1 / 2 ^ 63 \<le> 1 / real_of_int maxc" using m by (intro divide_left_mono) simp_all
  then have b: "1 / 2 ^ 80 \<le> 1 / real_of_int maxc / 2 ^ 17" by simp
  have one: "1 \<le> real_of_int maxc" using assms(3) by simp
  have "real_of_int qty * 1 \<le> real_of_int qty * real_of_int maxc"
    by (rule mult_left_mono [OF one q(1)])
  then have "real_of_int qty / real_of_int maxc \<le> real_of_int qty"
    using m by (simp add: divide_le_eq)
  moreover have "(2::real) powr - 1075 \<le> 1 / real_of_int maxc / 2 ^ 17" using eta_small b by linarith
  ultimately show ?thesis using a q m by simp
qed

text \<open>
  C14 (bounds). The status computed in floating point is the status of the data model,
  \<open>GOOD_CAPACITY\<close> exactly when \<open>100 * quantity > threshold * max_capacity\<close>, for every
  quantity below \<open>2^44\<close>, every positive capacity below \<open>2^63\<close> and every threshold,
  except when \<open>100 * quantity = threshold * max_capacity\<close> (where the two may
  differ: \<open>capacity_status 7 100 7\<close> is \<open>GOOD_CAPACITY\<close>). No \<open>ZeroDivisionError\<close> or \<open>OverflowError\<close> is raised there.
\<close>

theorem capacity_status_exact:
  assumes "0 \<le> qty" "qty < 2 ^ 44" "0 < maxc" "maxc < 2 ^ 63" "100 * qty \<noteq> thr * maxc"
  shows "capacity_status qty maxc thr =
    Inr (if thr * maxc < 100 * qty then GOOD_CAPACITY else LOW_CAPACITY)"
proof -
  define x where "x = real_of_int qty / real_of_int maxc"
  define y where "y = 1 / real_of_int maxc"
  from ratio_facts [OF assms(1-4)] have f: "x \<le> 2 ^ 44 * y" "2 powr - 1075 \<le> y / 2 ^ 17"
    "0 \<le> x" "x < 2 ^ 44"
    by (simp_all add: x_def y_def)
  have "x < 2 powr 1023" using f(4) two_pow_le_powr by simp
  then obtain m1 e1 where d: "py_truediv qty maxc = Inr (PFin (int m1) e1)"
    and err1: "\<bar>real m1 * 2 powr real_of_int e1 - x\<bar> \<le> x / 2 ^ 53 + 2 powr - 1075"
    using py_truediv_val [OF assms(1,3)] by (auto simp: x_def)
  have "real m1 * 2 powr real_of_int e1 * real (100::nat) < 2 powr 1023"
    using err1 f eta_small two_pow_le_powr by (simp add: abs_le_iff)
  then obtain m2 e2 where mu: "py_mul_pos (PFin (int m1) e1) 100 = PFin (int m2) e2"
    and err2: "\<bar>real m2 * 2 powr real_of_int e2 - real m1 * 2 powr real_of_int e1 * 100\<bar>
      \<le> real m1 * 2 powr real_of_int e1 * 100 / 2 ^ 53 + 2 powr - 1075"
    using py_mul_pos_val [of 100 m1 e1] by auto
  have cs: "capacity_status qty maxc thr =
      Inr (if real_of_int thr < real m2 * 2 powr real_of_int e2 then GOOD_CAPACITY else LOW_CAPACITY)"
    by (simp add: capacity_status_def d mu py_gt_int_val del: py_mul_pos.simps py_gt_int.simps)
  have sc: "(real_of_int (100 * qty) - real_of_int (thr * maxc)) * y = 100 * x - real_of_int thr"
    using assms(3) by (simp add: x_def y_def field_simps)
  have y0: "0 \<le> y" and y1: "0 < y" using assms(3) by (simp_all add: y_def)
  show ?thesis
  proof (cases "thr * maxc < 100 * qty")
    case True
    then have "1 \<le> real_of_int (100 * qty) - real_of_int (thr * maxc)" by linarith
    then have "y \<le> 100 * x - real_of_int thr" using y0 sc by (metis mult_1 mult_right_mono)
    with abs_le_D1 [OF err1] abs_le_D2 [OF err1] abs_le_D1 [OF err2] abs_le_D2 [OF err2] f y1
    have "real_of_int thr < real m2 * 2 powr real_of_int e2" by simp
    with cs True show ?thesis by simp
  next
    case False
    with assms(5) have "1 \<le> real_of_int (thr * maxc) - real_of_int (100 * qty)" by linarith
    then have "y \<le> real_of_int thr - 100 * x" using y0 sc by (metis mult_1 mult_right_mono minus_diff_eq mult_minus_left)
    with abs_le_D1 [OF err1] abs_le_D2 [OF err1] abs_le_D1 [OF err2] abs_le_D2 [OF err2] f y1
    have "\<not> real_of_int thr < real m2 * 2 powr real_of_int e2" by simp
    with cs False show ?thesis by simp
  qed
qed


subsection \<open>Transfers that raise nothing\<close>

text \<open>
  Below \<open>2^63\<close> and with positive capacities the division of line 192 neither divides
  by zero nor overflows, so the status refresh and the writes of an item return.
\<close>

lemma two_pow63_le_powr: "(2::real) ^ 63 \<le> 2 powr 1023"
proof -
  have "(2::real) ^ 63 = 2 powr 63" by (simp add: powr_realpow)
  also have "\<dots> \<le> 2 powr 1023" by (intro powr_mono) simp_all
  finally show ?thesis .
qed

lemma py_truediv_abs_Inr:
  assumes "py_truediv \<bar>a\<bar> b = Inr x"
  shows "\<exists>y. py_truediv a b = Inr y"
proof -
  obtain m e where r: "round_ratio (nat \<bar>a\<bar>) (nat \<bar>b\<bar>) = (m, e)" by fastforce
  with assms show ?thesis by (simp add: py_truediv_def split: if_splits)
qed

lemma capacity_status_no_exc:
  assumes "\<bar>qty\<bar> < 2 ^ 63" "0 < maxc"
  shows "\<exists>s. capacity_status qty maxc thr = Inr s"
proof -
  have one: "1 \<le> real_of_int maxc" using assms(2) by simp
  have "real_of_int \<bar>qty\<bar> * 1 \<le> real_of_int \<bar>qty\<bar> * real_of_int maxc"
    by (rule mult_left_mono [OF one]) simp
  then have "real_of_int \<bar>qty\<bar> / real_of_int maxc \<le> real_of_int \<bar>qty\<bar>"
    using assms(2) by (simp add: divide_le_eq)
  also have "\<dots> < 2 ^ 63"
    using assms(1) by (metis of_int_less_iff of_int_numeral of_int_power)
  also have "\<dots> \<le> 2 powr 1023" by (rule two_pow63_le_powr)
  finally obtain x where "py_truediv \<bar>qty\<bar> maxc = Inr x"
    using py_truediv_val [of "\<bar>qty\<bar>" maxc] assms(2) by auto
  then obtain y where "py_truediv qty maxc = Inr y" using py_truediv_abs_Inr by blast
  then show ?thesis by (simp add: capacity_status_def)
qed

lemma refresh_status_no_exc:
  assumes "\<forall>c. capacity_tbl st (w, p) = Some c \<longrightarrow> 0 < max_capacity c" "\<bar>inv_qty st (w, p)\<bar> < 2 ^ 63"
  shows "\<exists>st'. refresh_status st w p = Inr st'"
proof (cases "select_inventory_capacity st w p")
  case None
  then show ?thesis by (simp add: refresh_status_def)
next
  case (Some x)
  then obtain r c where rc: "inventory_tbl st (w, p) = Some r" "capacity_tbl st (w, p) = Some c"
    "x = (quantity r, max_capacity c, capacity_percentage c)"
    by (auto simp: select_inventory_capacity_def split: option.splits)
  with assms have "\<bar>quantity r\<bar> < 2 ^ 63" "0 < max_capacity c" by (simp_all add: inv_qty_def)
  then obtain s where "capacity_status (quantity r) (max_capacity c) (capacity_percentage c) = Inr s"
    using capacity_status_no_exc by blast
  with Some rc show ?thesis by (simp add: refresh_status_def)
qed

lemma refresh_all_no_exc:
  assumes "\<forall>w \<in> set ws. (\<forall>c. capacity_tbl st (w, p) = Some c \<longrightarrow> 0 < max_capacity c) \<and>
    \<bar>inv_qty st (w, p)\<bar> < 2 ^ 63"
  shows "\<exists>st'. refresh_all st ws p = (None, st')"
  using assms
proof (induction ws arbitrary: st)
  case Nil
  then show ?case by (simp add: refresh_all.simps)
next
  case (Cons w ws)
  then obtain st1 where r1: "refresh_status st w p = Inr st1"
    using refresh_status_no_exc by (metis list.set_intros(1))
  have "capacity_tbl st1 = capacity_tbl st" "inv_qty st1 = inv_qty st"
    using refresh_status_frame(2) [OF r1] refresh_status_qty [OF r1] by simp_all
  with Cons.prems Cons.IH [of st1] r1 show ?case by (simp add: refresh_all.simps)
qed

lemma move_item_no_exc:
  assumes "f \<noteq> t" "inventory_tbl st (f, p) \<noteq> None" "nm f = Some fn" "nm t = Some tn"
    and "\<forall>w \<in> {f, t}. \<forall>c. capacity_tbl st (w, p) = Some c \<longrightarrow> 0 < max_capacity c"
    and "\<bar>inv_qty st (f, p) - q\<bar> < 2 ^ 63" "\<bar>inv_qty st (t, p) + q\<bar> < 2 ^ 63"
  shows "\<exists>st'. move_item f t nm st p q pname =
      (Inr \<lparr>entry_product_id = p, entry_product_name = pname, entry_quantity = q,
            entry_from = fn, entry_to = tn\<rparr>, st') \<and>
    inv_qty st' = move_stock f t (p, q) (inv_qty st) \<and> status_ok st' f p \<and> status_ok st' t p"
proof -
  define st2 where "st2 = upsert_quantity_add (update_quantity_sub st f p q) t p q"
  have q2: "inv_qty st2 = move_stock f t (p, q) (inv_qty st)"
    using assms(1,2) by (simp add: st2_def inv_qty_upsert_quantity_add inv_qty_update_quantity_sub
        move_stock_def)
  have c2: "capacity_tbl st2 = capacity_tbl st" by (simp add: st2_def frame_simps)
  have "\<forall>w \<in> set [f, t]. (\<forall>c. capacity_tbl st2 (w, p) = Some c \<longrightarrow> 0 < max_capacity c) \<and>
      \<bar>inv_qty st2 (w, p)\<bar> < 2 ^ 63"
    using assms(1,5-7) q2 c2 by (simp add: move_stock_def)
  then obtain st3 where r: "refresh_all st2 [f, t] p = (None, st3)" using refresh_all_no_exc by blast
  have "inv_qty st3 = move_stock f t (p, q) (inv_qty st)" using refresh_all_qty [OF r] q2 by simp
  moreover have "status_ok st3 f p" "status_ok st3 t p" using refresh_all_ok [OF r] assms(1) by simp_all
  moreover have "move_item f t nm st p q pname =
      (Inr \<lparr>entry_product_id = p, entry_product_name = pname, entry_quantity = q,
            entry_from = fn, entry_to = tn\<rparr>, st3)"
    using r assms(3,4) by (simp add: move_item_def st2_def)
  ultimately show ?thesis by blast
qed

text \<open>
  C8 (functional). A transfer of one item that passes every guard succeeds, for every
  store whose capacity rows for the product (if any) have a positive \<open>max_capacity\<close>
  and whose quantities for it stay within SQLite's 64-bit range: the response lists the
  one transfer with the product's and the warehouses' names, the quantity moves from the
  source to the destination, and both statuses are refreshed. This holds up to moving
  the whole available stock (\<open>q = quantity\<close>, the source left at 0). With a
  \<open>max_capacity\<close> of 0 the request fails instead (C10).
\<close>

theorem product_transfer_single_item:
  assumes "from_warehouse req = Some f" "to_warehouse req = Some t" "products_to_get req = Some [it]"
    and "f \<noteq> t" "sqlite_int f" "sqlite_int t" "warehouse_tbl st f = Some fn" "warehouse_tbl st t = Some tn"
    and "item_product_id it = Some p" "item_quantity_needed it = Some q" "sqlite_int p"
    and "inventory_tbl st (f, p) = Some r" "product_tbl st p = Some pn" "0 < q" "q \<le> quantity r"
    and "\<forall>w \<in> {f, t}. \<forall>c. capacity_tbl st (w, p) = Some c \<longrightarrow> 0 < max_capacity c"
    and "quantity r < 2 ^ 63" "0 \<le> inv_qty st (t, p)" "inv_qty st (t, p) + q < 2 ^ 63"
  shows "\<exists>st'. product_transfer st req =
      (Inr [\<lparr>entry_product_id = p, entry_product_name = pn, entry_quantity = q,
             entry_from = fn, entry_to = tn\<rparr>], st') \<and>
    inv_qty st' = move_stock f t (p, q) (inv_qty st) \<and> status_ok st' f p \<and> status_ok st' t p"
proof -
  have chk: "check_item st f it = Inr (p, q, pn)"
    using assms(9-15) by (simp add: check_item_def select_source_inventory_def)
  have "\<bar>inv_qty st (f, p) - q\<bar> < 2 ^ 63" "\<bar>inv_qty st (t, p) + q\<bar> < 2 ^ 63"
    using assms(12,14,15,17-19) by (simp_all add: inv_qty_def)
  from move_item_no_exc [OF assms(4) _ _ _ assms(16) this, of "[f \<mapsto> fn, t \<mapsto> tn]" fn tn pn]
  obtain st' where mv: "move_item f t [f \<mapsto> fn, t \<mapsto> tn] st p q pn =
      (Inr \<lparr>entry_product_id = p, entry_product_name = pn, entry_quantity = q,
            entry_from = fn, entry_to = tn\<rparr>, st')"
    and rest: "inv_qty st' = move_stock f t (p, q) (inv_qty st)" "status_ok st' f p" "status_ok st' t p"
    using assms(4,12) by auto
  have "product_transfer st req =
      (Inr [\<lparr>entry_product_id = p, entry_product_name = pn, entry_quantity = q,
             entry_from = fn, entry_to = tn\<rparr>], st')"
    using product_transfer_one_item [OF assms(1-8) chk] mv by simp
  with rest show ?thesis by blast
qed

end
