(* ===== verification/TransferRace.thy ===== *)
theory TransferRace
  imports Interleaving StatusBounds
begin

text \<open>
  The check-then-act race of the transfer (the spec's section 5). The handler reads the
  available quantity (lines 145--150) and decrements it (lines 160--164) in separate
  statements, so two requests can both pass the check on the same stock. The lemmas
  give the first steps of a one-item transfer program and its remaining run, and the
  theorem runs two identical requests, first one after the other and then interleaved.
\<close>

lemma loop_prog_one_step:
  assumes "check_item st f it = Inr (p, q, pname)"
  shows "prog_step st (loop_prog f t nm [it]) =
    Some (bindp (move_prog f t nm p q pname) (\<lambda>r. case r of Inl e \<Rightarrow> Ret (Inl e) | Inr x \<Rightarrow> Ret (Inr [x])), st)"
  using assms by (auto simp: check_item_def item_prog_def split: option.splits if_splits)

lemma run_move_one:
  "run_prog (bindp (move_prog f t nm p q pname) (\<lambda>r. case r of Inl e \<Rightarrow> Ret (Inl e) | Inr x \<Rightarrow> Ret (Inr [x]))) s =
    (case move_item f t nm s p q pname of (Inl e, s') \<Rightarrow> (Inl e, s') | (Inr x, s') \<Rightarrow> (Inr [x], s'))"
  by (simp add: run_bindp run_move_prog split: prod.splits sum.splits)

text \<open>
  C11 (safety). The race, for every store and every one-item request that moves more
  than half and at most all of a product's stock (\<open>q \<le> quantity < 2 * q\<close>), under
  the conditions of C8 for two moves (positive capacities if any, quantities within 64
  bits): run one after the other, the first request succeeds and the second is refused
  with \<open>InsufficientInventory\<close>; interleaved statement by statement (both read the
  warehouses, both read the source row, then each runs to its end), both succeed with the
  same response, the source ends at \<open>quantity - 2 * q < 0\<close>, breaking the invariant that
  quantities are non-negative, and the destination gains \<open>2 * q\<close>.
\<close>

theorem concurrent_transfers_overdraw:
  assumes "from_warehouse req = Some f" "to_warehouse req = Some t" "products_to_get req = Some [it]"
    and "f \<noteq> t" "sqlite_int f" "sqlite_int t" "warehouse_tbl st f = Some fn" "warehouse_tbl st t = Some tn"
    and "item_product_id it = Some p" "item_quantity_needed it = Some q" "sqlite_int p"
    and "inventory_tbl st (f, p) = Some r" "product_tbl st p = Some pn" "0 < q" "q \<le> quantity r"
    and "quantity r < 2 * q"
    and "\<forall>w \<in> {f, t}. \<forall>c. capacity_tbl st (w, p) = Some c \<longrightarrow> 0 < max_capacity c"
    and "quantity r < 2 ^ 63" "0 \<le> inv_qty st (t, p)" "inv_qty st (t, p) + 2 * q < 2 ^ 63"
    and "e = \<lparr>entry_product_id = p, entry_product_name = pn, entry_quantity = q, entry_from = fn, entry_to = tn\<rparr>"
  shows "(\<exists>st1. product_transfer st req = (Inr [e], st1) \<and>
       product_transfer st1 req = (Inl (InsufficientInventory p (quantity r - q) q), st1)) \<and>
    (\<exists>st'. conc_step\<^sup>*\<^sup>* ([transfer_prog req, transfer_prog req], st) ([Ret (Inr [e]), Ret (Inr [e])], st') \<and>
       inv_qty st' (f, p) = quantity r - 2 * q \<and> inv_qty st' (t, p) = inv_qty st (t, p) + 2 * q \<and>
       inv_qty st' (f, p) < 0)"
proof -
  define nm where "nm = [f \<mapsto> fn, t \<mapsto> tn]"
  define P2 where "P2 = bindp (move_prog f t nm p q pn)
      (\<lambda>r. case r of Inl err \<Rightarrow> Ret (Inl err) | Inr x \<Rightarrow> Ret (Inr [x]))"
  have chk: "check_item st f it = Inr (p, q, pn)"
    using assms(9-15) by (simp add: check_item_def select_source_inventory_def)
  have caps: "\<forall>w \<in> {f, t}. \<forall>c. capacity_tbl st (w, p) = Some c \<longrightarrow> 0 < max_capacity c" by (rule assms(17))
  have b1: "\<bar>inv_qty st (f, p) - q\<bar> < 2 ^ 63" "\<bar>inv_qty st (t, p) + q\<bar> < 2 ^ 63"
    using assms(12,14,15,18-20) by (simp_all add: inv_qty_def)
  obtain st1 where mv1: "move_item f t nm st p q pn = (Inr e, st1)"
    and q1: "inv_qty st1 = move_stock f t (p, q) (inv_qty st)"
    using move_item_no_exc [OF assms(4) _ _ _ caps b1, of nm fn tn pn] assms(4,12,21)
    by (auto simp: nm_def)
  obtain rr where w1: "refresh_all (upsert_quantity_add (update_quantity_sub st f p q) t p q) [f, t] p = (rr, st1)"
    using mv1 by (rule move_item_cases)
  note tb1 = transfer_writes_tables [OF w1]
  have row1: "inventory_tbl st1 (f, p) \<noteq> None" using move_item_dom [OF mv1] assms(12) by simp
  then obtain r1 where r1: "inventory_tbl st1 (f, p) = Some r1" by blast
  have qr1: "quantity r1 = quantity r - q"
    using q1 r1 assms(4,12) by (simp add: fun_eq_iff inv_qty_def move_stock_def split: option.splits)
  have caps1: "\<forall>w \<in> {f, t}. \<forall>c. capacity_tbl st1 (w, p) = Some c \<longrightarrow> 0 < max_capacity c"
    using caps tb1 by simp
  have b2: "\<bar>inv_qty st1 (f, p) - q\<bar> < 2 ^ 63" "\<bar>inv_qty st1 (t, p) + q\<bar> < 2 ^ 63"
    using q1 assms(4,12,14,15,18-20) by (simp_all add: inv_qty_def move_stock_def)
  obtain st2 where mv2: "move_item f t nm st1 p q pn = (Inr e, st2)"
    and q2: "inv_qty st2 = move_stock f t (p, q) (inv_qty st1)"
    using move_item_no_exc [OF assms(4) row1 _ _ caps1 b2, of nm fn tn pn] assms(4,21)
    by (auto simp: nm_def)
  have seq1: "product_transfer st req = (Inr [e], st1)"
    using product_transfer_one_item [OF assms(1-8) chk] mv1 by (simp add: nm_def)
  have chk1: "check_item st1 f it = Inl (InsufficientInventory p (quantity r - q) q)"
    using assms(9-11,13,14,16) r1 qr1 tb1 by (simp add: check_item_def select_source_inventory_def)
  have seq2: "product_transfer st1 req = (Inl (InsufficientInventory p (quantity r - q) q), st1)"
    using assms(1-6) chk1 tb1 assms(7,8)
    by (simp add: product_transfer_def length_select_warehouses_in transfer_one_def)
  let ?P = "transfer_prog req"
  let ?L = "loop_prog f t nm [it]"
  have s0: "prog_step st ?P = Some (?L, st)"
    using assms(1-8) by (simp add: transfer_prog_def length_select_warehouses_in
        map_of_select_warehouses_in nm_def)
  have s1: "prog_step st ?L = Some (P2, st)" unfolding P2_def by (rule loop_prog_one_step [OF chk])
  have "conc_step\<^sup>*\<^sup>* ([?P, ?P], st) ([P2, P2], st)"
  proof -
    have "conc_step ([?P, ?P], st) ([?L, ?P], st)" using thread_step [OF s0, of 0 "[?P, ?P]"] by (simp del: loop_prog.simps)
    moreover have "conc_step ([?L, ?P], st) ([?L, ?L], st)" using thread_step [OF s0, of 1 "[?L, ?P]"] by (simp del: loop_prog.simps)
    moreover have "conc_step ([?L, ?L], st) ([P2, ?L], st)" using thread_step [OF s1, of 0 "[?L, ?L]"] by (simp del: loop_prog.simps)
    moreover have "conc_step ([P2, ?L], st) ([P2, P2], st)" using thread_step [OF s1, of 1 "[P2, ?L]"] by (simp del: loop_prog.simps)
    ultimately show ?thesis by (meson converse_rtranclp_into_rtranclp rtranclp.rtrancl_refl)
  qed
  moreover have "conc_step\<^sup>*\<^sup>* ([P2, P2], st) ([Ret (Inr [e]), P2], st1)"
    using run_thread_reach [of P2 st _ st1 0 "[P2, P2]"] mv1 by (simp add: P2_def run_move_one)
  moreover have "conc_step\<^sup>*\<^sup>* ([Ret (Inr [e]), P2], st1) ([Ret (Inr [e]), Ret (Inr [e])], st2)"
    using run_thread_reach [of P2 st1 _ st2 1 "[Ret (Inr [e]), P2]"] mv2 by (simp add: P2_def run_move_one)
  ultimately have conc: "conc_step\<^sup>*\<^sup>* ([?P, ?P], st) ([Ret (Inr [e]), Ret (Inr [e])], st2)" by simp
  have "inv_qty st2 (f, p) = quantity r - 2 * q" "inv_qty st2 (t, p) = inv_qty st (t, p) + 2 * q"
    using q1 q2 assms(4,12) by (simp_all add: move_stock_def inv_qty_def)
  with conc seq1 seq2 assms(16) show ?thesis by auto
qed

end
