(* ===== verification/JsonDecode.thy ===== *)
theory JsonDecode
  imports PyValues
begin

text \<open>
  \<open>json.loads\<close> as \<open>product_receipt_detail\<close> calls it on the stored items (line 61
  of \<open>src/server.py\<close>). The decoder is CPython's C scanner (\<open>Modules/_json.c\<close>):
  \<open>scanstring_unicode\<close> is \<open>scan_str\<close>, \<open>_match_number_unicode\<close> is
  \<open>scan_number\<close>, \<open>scan_once_unicode\<close> with \<open>_parse_array_unicode\<close> and
  \<open>_parse_object_unicode\<close> are the mutually recursive \<open>jvalue\<close>,
  \<open>jarray\<close>, \<open>jobject\<close> (their steps around the elements are
  \<open>open_container\<close>, \<open>after_item\<close> and \<open>obj_key\<close>), and \<open>json_loads\<close> is
  \<open>JSONDecoder.decode\<close> with the BOM check of \<open>json.loads\<close>. Text is a list of code
  points. The recursion of the scanner is bounded by a fuel argument; the lemmas show that
  the fuel \<open>json_loads\<close> gives (one more than the length of the text) never runs out
  and that more fuel changes nothing, so the result is the scanner's. The nesting limit
  of the interpreter's recursion check (\<open>RecursionError\<close>) is not modelled.
\<close>

section \<open>The scanner\<close>

text \<open>How a scan fails: a \<open>JSONDecodeError\<close> (\<open>Malformed\<close>), the \<open>ValueError\<close> of
  \<open>int\<close> on a numeral of more than 4300 digits, or the fuel running out.\<close>

datatype jerr = Malformed | IntDigits | OutOfFuel

definition json_ws :: "nat \<Rightarrow> bool" where
  "json_ws c \<longleftrightarrow> c = 32 \<or> c = 9 \<or> c = 10 \<or> c = 13"

definition skip_ws :: "ustr \<Rightarrow> ustr" where
  "skip_ws s = dropWhile json_ws s"

definition hex_val :: "nat \<Rightarrow> nat option" where
  "hex_val c = (if 48 \<le> c \<and> c \<le> 57 then Some (c - 48)
     else if 97 \<le> c \<and> c \<le> 102 then Some (c - 87)
     else if 65 \<le> c \<and> c \<le> 70 then Some (c - 55) else None)"

fun hex4 :: "ustr \<Rightarrow> nat option" where
  "hex4 [a, b, c, d] =
     (case (hex_val a, hex_val b, hex_val c, hex_val d) of
        (Some w, Some x, Some y, Some z) \<Rightarrow> Some (((w * 16 + x) * 16 + y) * 16 + z)
      | _ \<Rightarrow> None)"
| "hex4 _ = None"

definition simple_escape :: "nat \<Rightarrow> nat option" where
  "simple_escape c = (if c = 34 \<or> c = 92 \<or> c = 47 then Some c
     else if c = 98 then Some 8 else if c = 102 then Some 12 else if c = 110 then Some 10
     else if c = 114 then Some 13 else if c = 116 then Some 9 else None)"

definition is_high_surrogate :: "nat \<Rightarrow> bool" where
  "is_high_surrogate c \<longleftrightarrow> 55296 \<le> c \<and> c \<le> 56319"

definition is_low_surrogate :: "nat \<Rightarrow> bool" where
  "is_low_surrogate c \<longleftrightarrow> 56320 \<le> c \<and> c \<le> 57343"

definition join_surrogates :: "nat \<Rightarrow> nat \<Rightarrow> nat" where
  "join_surrogates h l = 65536 + (h - 55296) * 1024 + (l - 56320)"

text \<open>The escape after a backslash (\<open>scanstring_unicode\<close>): a one-letter escape, or
  \<open>\uXXXX\<close> with four hex digits and at least one more character, joined with an
  immediately following \<open>\uXXXX\<close> low surrogate when it is a high surrogate and the
  text goes on for at least seven more characters.\<close>

definition u_escape :: "ustr \<Rightarrow> (nat \<times> ustr) option" where
  "u_escape r =
     (if length r < 5 then None
      else case hex4 (take 4 r) of
        None \<Rightarrow> None
      | Some v \<Rightarrow>
          (let r1 = drop 4 r in
           if is_high_surrogate v \<and> 7 \<le> length r1 \<and> r1 ! 0 = 92 \<and> r1 ! 1 = 117 then
             (case hex4 (take 4 (drop 2 r1)) of
                None \<Rightarrow> None
              | Some v2 \<Rightarrow> if is_low_surrogate v2 then Some (join_surrogates v v2, drop 6 r1) else Some (v, r1))
           else Some (v, r1)))"

definition escape_char :: "ustr \<Rightarrow> (nat \<times> ustr) option" where
  "escape_char cs = (case cs of
      [] \<Rightarrow> None
    | e # r \<Rightarrow> if e = 117 then u_escape r else map_option (\<lambda>x. (x, r)) (simple_escape e))"

text \<open>A string after its opening quote: up to the closing quote, with escapes decoded;
  a control character below 32 is an error (\<open>strict\<close> mode).\<close>

function scan_str :: "ustr \<Rightarrow> ustr \<Rightarrow> jerr + ustr \<times> ustr" where
  "scan_str acc [] = Inl Malformed"
| "scan_str acc (c # cs) =
     (if c = 34 then Inr (rev acc, cs)
      else if c = 92 then
        (case escape_char cs of
           None \<Rightarrow> Inl Malformed
         | Some (x, r) \<Rightarrow> scan_str (x # acc) r)
      else if c \<le> 31 then Inl Malformed
      else scan_str (c # acc) cs)"
  by pat_completeness auto
termination
  by (relation "measure (\<lambda>(acc, s). length s)")
    (auto simp: escape_char_def u_escape_def Let_def split: list.splits if_splits option.splits)

text \<open>Numbers (\<open>_match_number_unicode\<close>): an optional minus, \<open>0\<close> or a digit string not
  starting with \<open>0\<close>, a fraction when a digit follows the dot, an exponent when a digit
  follows \<open>e\<close> and its optional sign (otherwise the scanner backtracks to before the
  \<open>e\<close>). A float is \<open>float(numstr)\<close>, correctly rounded; an integer is \<open>int(numstr)\<close>,
  which rejects more than 4300 digits.\<close>

definition starts_with :: "ustr \<Rightarrow> ustr \<Rightarrow> bool" where
  "starts_with p s \<longleftrightarrow> take (length p) s = p"

definition take_exp :: "ustr \<Rightarrow> (bool \<times> nat list \<times> ustr) option" where
  "take_exp s = (case s of
      e # r \<Rightarrow>
        if e = 101 \<or> e = 69 then
          (let (eneg, r1) = (case r of
                 x # y # z \<Rightarrow> if x = 45 then (True, y # z) else if x = 43 then (False, y # z) else (False, r)
               | _ \<Rightarrow> (False, r));
               eds = takeWhile is_digit r1
           in if eds = [] then None else Some (eneg, eds, dropWhile is_digit r1))
        else None
    | [] \<Rightarrow> None)"

definition take_frac :: "ustr \<Rightarrow> (nat list \<times> ustr) option" where
  "take_frac s = (case s of
      p # d # r \<Rightarrow> if p = 46 \<and> is_digit d then Some (d # takeWhile is_digit r, dropWhile is_digit r) else None
    | _ \<Rightarrow> None)"

definition take_minus :: "ustr \<Rightarrow> bool \<times> ustr" where
  "take_minus s = (case s of c # r \<Rightarrow> if c = 45 then (True, r) else (False, s) | [] \<Rightarrow> (False, []))"

definition int_part :: "ustr \<Rightarrow> (nat list \<times> ustr) option" where
  "int_part s = (case s of
      c # r \<Rightarrow>
        if c = 48 then Some ([c], r)
        else if 49 \<le> c \<and> c \<le> 57 then Some (c # takeWhile is_digit r, dropWhile is_digit r)
        else None
    | [] \<Rightarrow> None)"

definition float_value :: "bool \<Rightarrow> nat list \<Rightarrow> nat list \<Rightarrow> int \<Rightarrow> pyjson" where
  "float_value neg ids fds ex = JFloat (dec_to_jfloat neg (digits_val (ids @ fds)) (ex - int (length fds)))"

definition exp_value :: "bool \<Rightarrow> nat list \<Rightarrow> int" where
  "exp_value eneg eds = (if eneg then - int (digits_val eds) else int (digits_val eds))"

definition scan_number :: "ustr \<Rightarrow> jerr + pyjson \<times> ustr" where
  "scan_number s =
     (let (neg, s1) = take_minus s
      in case int_part s1 of
           None \<Rightarrow> Inl Malformed
         | Some (ids, r1) \<Rightarrow>
             (case take_frac r1 of
                None \<Rightarrow>
                  (case take_exp r1 of
                     None \<Rightarrow>
                       if 4300 < length ids then Inl IntDigits
                       else Inr (JInt (signed_int neg (digits_val ids)), r1)
                   | Some (eneg, eds, r3) \<Rightarrow> Inr (float_value neg ids [] (exp_value eneg eds), r3))
              | Some (fds, r2) \<Rightarrow>
                  (case take_exp r2 of
                     None \<Rightarrow> Inr (float_value neg ids fds 0, r2)
                   | Some (eneg, eds, r3) \<Rightarrow> Inr (float_value neg ids fds (exp_value eneg eds), r3))))"

text \<open>\<open>PyDict_SetItem\<close> on the dict being built: a new key is appended, an existing one
  keeps its place and takes the new value. \<open>dict_from_pairs\<close> is the dict an
  object's members build in order; it is also \<open>dict(row)\<close> for a row's columns.\<close>

definition dict_set :: "(ustr \<times> pyjson) list \<Rightarrow> ustr \<times> pyjson \<Rightarrow> (ustr \<times> pyjson) list" where
  "dict_set d kv = (if fst kv \<in> set (map fst d)
     then map (\<lambda>(k', v'). if k' = fst kv then (k', snd kv) else (k', v')) d else d @ [kv])"

definition dict_from_pairs :: "(ustr \<times> pyjson) list \<Rightarrow> (ustr \<times> pyjson) list" where
  "dict_from_pairs ps = foldl dict_set [] ps"

text \<open>The named constants of \<open>scan_once_unicode\<close>, then a number.\<close>

definition json_constant :: "ustr \<Rightarrow> jerr + pyjson \<times> ustr" where
  "json_constant s =
     (if starts_with (pystr ''null'') s then Inr (JNone, drop 4 s)
      else if starts_with (pystr ''true'') s then Inr (JBool True, drop 4 s)
      else if starts_with (pystr ''false'') s then Inr (JBool False, drop 5 s)
      else if starts_with (pystr ''NaN'') s then Inr (JFloat JNaN, drop 3 s)
      else if starts_with (pystr ''Infinity'') s then Inr (JFloat (JInf False), drop 8 s)
      else if starts_with (pystr ''-Infinity'') s then Inr (JFloat (JInf True), drop 9 s)
      else scan_number s)"

text \<open>The pieces of \<open>_parse_array_unicode\<close> and \<open>_parse_object_unicode\<close> around the
  elements. After the opening bracket, whitespace, then either the closing bracket (an
  empty container, \<open>Inl\<close> the text after it) or the first element (\<open>Inr\<close>).\<close>

definition open_container :: "nat \<Rightarrow> ustr \<Rightarrow> ustr + ustr" where
  "open_container close cs = (let r = skip_ws cs in if r \<noteq> [] \<and> hd r = close then Inl (tl r) else Inr r)"

text \<open>After an element: whitespace, then the closing bracket, or a comma and whitespace
  before the next element; anything else is an error (so is a trailing comma, which the
  next element's scan rejects).\<close>

datatype sep = SepClose ustr | SepMore ustr | SepBad

definition after_item :: "nat \<Rightarrow> ustr \<Rightarrow> sep" where
  "after_item close r =
     (let r1 = skip_ws r in
      if r1 \<noteq> [] \<and> hd r1 = close then SepClose (tl r1)
      else if r1 \<noteq> [] \<and> hd r1 = 44 then SepMore (skip_ws (tl r1))
      else SepBad)"

text \<open>A member's key: a string, whitespace, a colon, whitespace.\<close>

definition obj_key :: "ustr \<Rightarrow> jerr + ustr \<times> ustr" where
  "obj_key s =
     (if s \<noteq> [] \<and> hd s = 34 then
        (case scan_str [] (tl s) of
           Inl e \<Rightarrow> Inl e
         | Inr (k, r) \<Rightarrow>
             (let r1 = skip_ws r in if r1 \<noteq> [] \<and> hd r1 = 58 then Inr (k, skip_ws (tl r1)) else Inl Malformed))
      else Inl Malformed)"

text \<open>\<open>scan_once_unicode\<close>, \<open>_parse_array_unicode\<close> and \<open>_parse_object_unicode\<close>. An
  array or object calls the scanner for its first element with the fuel it has and itself
  with one less for the next, so the measure counts an array or object call as half a
  step more than a value call.\<close>

function jvalue :: "nat \<Rightarrow> ustr \<Rightarrow> jerr + pyjson \<times> ustr"
  and jarray :: "nat \<Rightarrow> ustr \<Rightarrow> pyjson list \<Rightarrow> jerr + pyjson \<times> ustr"
  and jobject :: "nat \<Rightarrow> ustr \<Rightarrow> (ustr \<times> pyjson) list \<Rightarrow> jerr + pyjson \<times> ustr" where
  "jvalue 0 s = Inl OutOfFuel"
| "jvalue (Suc n) s =
     (case s of
        [] \<Rightarrow> Inl Malformed
      | c # cs \<Rightarrow>
          if c = 34 then (case scan_str [] cs of Inl e \<Rightarrow> Inl e | Inr (t, r) \<Rightarrow> Inr (JStr t, r))
          else if c = 123 then
            (case open_container 125 cs of Inl r \<Rightarrow> Inr (JDict [], r) | Inr r \<Rightarrow> jobject n r [])
          else if c = 91 then
            (case open_container 93 cs of Inl r \<Rightarrow> Inr (JList [], r) | Inr r \<Rightarrow> jarray n r [])
          else json_constant s)"
| "jarray 0 s acc = Inl OutOfFuel"
| "jarray (Suc n) s acc =
     (case jvalue (Suc n) s of
        Inl e \<Rightarrow> Inl e
      | Inr (v, r) \<Rightarrow>
          (case after_item 93 r of
             SepClose r' \<Rightarrow> Inr (JList (rev (v # acc)), r')
           | SepMore r' \<Rightarrow> jarray n r' (v # acc)
           | SepBad \<Rightarrow> Inl Malformed))"
| "jobject 0 s acc = Inl OutOfFuel"
| "jobject (Suc n) s acc =
     (case obj_key s of
        Inl e \<Rightarrow> Inl e
      | Inr (k, r) \<Rightarrow>
          (case jvalue (Suc n) r of
             Inl e \<Rightarrow> Inl e
           | Inr (v, r2) \<Rightarrow>
               (case after_item 125 r2 of
                  SepClose r' \<Rightarrow> Inr (JDict (dict_from_pairs (rev ((k, v) # acc))), r')
                | SepMore r' \<Rightarrow> jobject n r' ((k, v) # acc)
                | SepBad \<Rightarrow> Inl Malformed)))"
  by pat_completeness auto
termination
  by (relation "measure (\<lambda>x. case x of Inl (n, s) \<Rightarrow> 2 * n
                                  | Inr (Inl (n, s, acc)) \<Rightarrow> 2 * n + 1
                                  | Inr (Inr (n, s, acc)) \<Rightarrow> 2 * n + 1)") auto

text \<open>\<open>json.loads\<close> on a \<open>str\<close>: a leading BOM is an error; otherwise
  \<open>JSONDecoder.decode\<close> skips whitespace, scans one value and allows only whitespace
  after it. \<open>int\<close>'s \<open>ValueError\<close> escapes as it is; every other failure is a
  \<open>JSONDecodeError\<close>.\<close>

definition json_loads :: "ustr \<Rightarrow> py_exc + pyjson" where
  "json_loads s =
     (if s \<noteq> [] \<and> hd s = 65279 then Inl JSONDecodeError
      else case jvalue (Suc (length s)) (skip_ws s) of
             Inl IntDigits \<Rightarrow> Inl ValueError
           | Inl _ \<Rightarrow> Inl JSONDecodeError
           | Inr (v, r) \<Rightarrow> if skip_ws r = [] then Inr v else Inl JSONDecodeError)"

text \<open>A decoded value is well formed when each of its dicts has distinct keys.\<close>

fun json_keys_ok :: "pyjson \<Rightarrow> bool" where
  "json_keys_ok (JList vs) = list_all json_keys_ok vs"
| "json_keys_ok (JDict kvs) = (distinct (map fst kvs) \<and> list_all (\<lambda>(k, v). json_keys_ok v) kvs)"
| "json_keys_ok _ = True"

lemmas json_simps = open_container_def after_item_def obj_key_def u_escape_def escape_char_def json_ws_def skip_ws_def hex_val_def simple_escape_def is_high_surrogate_def
  is_low_surrogate_def join_surrogates_def starts_with_def take_exp_def take_frac_def
  take_minus_def int_part_def float_value_def exp_value_def scan_number_def dict_set_def dict_from_pairs_def json_constant_def json_loads_def

section \<open>Lemmas\<close>

subsection \<open>Each scan consumes input\<close>

lemma escape_char_shorter: "escape_char cs = Some (x, r) \<Longrightarrow> length r < length cs"
  by (auto simp: escape_char_def u_escape_def Let_def split: list.splits if_splits option.splits)

lemma scan_str_consumes: "scan_str acc s = Inr (t, r) \<Longrightarrow> length r < length s"
proof (induction acc s rule: scan_str.induct)
  case (1 acc)
  then show ?case by simp
next
  case (2 acc c cs)
  then show ?case
    by (fastforce split: if_splits option.splits dest: escape_char_shorter)
qed

lemma skip_ws_le: "length (skip_ws s) \<le> length s"
  by (simp add: skip_ws_def length_dropWhile_le)

lemma take_frac_consumes: "take_frac s = Some (fd, r) \<Longrightarrow> length r < length s"
  by (auto simp: take_frac_def intro: le_less_trans [OF length_dropWhile_le] split: list.splits if_splits)

lemma take_exp_consumes: "take_exp s = Some (b, ds, r) \<Longrightarrow> length r < length s"
  by (auto simp: take_exp_def Let_def intro: le_less_trans [OF length_dropWhile_le]
      split: list.splits if_splits prod.splits)

lemma int_part_consumes: "int_part s = Some (ds, r) \<Longrightarrow> length r < length s"
  by (auto simp: int_part_def intro: le_less_trans [OF length_dropWhile_le] split: list.splits if_splits)

lemma take_minus_le: "take_minus s = (b, s1) \<Longrightarrow> length s1 \<le> length s"
  by (auto simp: take_minus_def split: list.splits if_splits)

lemma scan_number_consumes: "scan_number s = Inr (v, r) \<Longrightarrow> length r < length s"
  by (auto simp: scan_number_def split: prod.splits option.splits if_splits
      dest!: take_minus_le int_part_consumes take_frac_consumes take_exp_consumes)

lemma json_constant_consumes: "json_constant s = Inr (v, r) \<Longrightarrow> length r < length s"
  by (auto simp: json_constant_def starts_with_def pystr_def dest!: scan_number_consumes
      split: if_splits dest: arg_cong [where f = length])

lemma skip_ws_tl_less: "r \<noteq> [] \<Longrightarrow> length (skip_ws (tl r)) < length r"
  by (cases r) (auto intro: le_less_trans [OF skip_ws_le])

lemma open_container_len:
  "open_container c cs = Inl r \<Longrightarrow> length r < length cs"
  "open_container c cs = Inr r \<Longrightarrow> length r \<le> length cs"
proof -
  have "skip_ws cs \<noteq> [] \<Longrightarrow> length (tl (skip_ws cs)) < length cs"
    using skip_ws_le [of cs] by (cases "skip_ws cs") auto
  then show "open_container c cs = Inl r \<Longrightarrow> length r < length cs"
    "open_container c cs = Inr r \<Longrightarrow> length r \<le> length cs"
    using skip_ws_le [of cs] by (auto simp: open_container_def Let_def split: if_splits)
qed

lemma after_item_len:
  "after_item c r = SepClose r' \<Longrightarrow> length r' < length r"
  "after_item c r = SepMore r' \<Longrightarrow> length r' < length r"
  using skip_ws_le [of r] skip_ws_tl_less [of "skip_ws r"]
  by (auto simp: after_item_def Let_def split: if_splits)

lemma obj_key_len: "obj_key s = Inr (k, r) \<Longrightarrow> length r < length s"
proof -
  assume ok: "obj_key s = Inr (k, r)"
  then obtain y where hs: "s \<noteq> []" "hd s = 34" and sc: "scan_str [] (tl s) = Inr (k, y)"
    and c1: "skip_ws y \<noteq> []" "hd (skip_ws y) = 58" and r: "r = skip_ws (tl (skip_ws y))"
    by (auto simp: obj_key_def Let_def split: if_splits sum.splits prod.splits)
  have "length y < length s" using scan_str_consumes [OF sc] hs by (cases s) auto
  then show ?thesis unfolding r using skip_ws_tl_less [OF c1(1)] skip_ws_le [of y] by linarith
qed

lemma json_consumes:
  "jvalue n s = Inr (v, r) \<Longrightarrow> length r < length s"
  "jarray n s acc = Inr (v, r) \<Longrightarrow> length r < length s"
  "jobject n s acc' = Inr (v, r) \<Longrightarrow> length r < length s"
proof (induction n s and n s acc and n s acc' arbitrary: v r and v r and v r
    rule: jvalue_jarray_jobject.induct)
  case (2 n s)
  show ?case
  proof (cases s)
    case (Cons c cs)
    show ?thesis
      using "2.prems" "2.IH" [OF Cons] Cons
      by (fastforce split: if_splits sum.splits prod.splits
          dest: scan_str_consumes json_constant_consumes open_container_len)
  qed (use "2.prems" in simp)
next
  case (4 n s acc)
  obtain x y where jv: "jvalue (Suc n) s = Inr (x, y)"
    using "4.prems" by (auto split: sum.splits)
  have ys: "length y < length s" using "4.IH"(1) [OF jv] .
  show ?case
  proof (cases "after_item 93 y")
    case (SepClose r')
    then show ?thesis using "4.prems" jv ys after_item_len(1) [OF SepClose] by (simp del: jvalue.simps)
  next
    case (SepMore r')
    then have "jarray n r' (x # acc) = Inr (v, r)" using "4.prems" jv by (simp del: jvalue.simps)
    then show ?thesis using "4.IH"(2) [OF jv refl SepMore] ys after_item_len(2) [OF SepMore] by fastforce
  next
    case SepBad
    then show ?thesis using "4.prems" jv by (simp del: jvalue.simps)
  qed
next
  case (6 n s acc)
  obtain k y where ok: "obj_key s = Inr (k, y)"
    using "6.prems" by (auto split: sum.splits)
  obtain x z where jv: "jvalue (Suc n) y = Inr (x, z)"
    using "6.prems" ok by (auto simp del: jvalue.simps split: sum.splits)
  have zs: "length z < length s"
    using "6.IH"(1) [OF ok refl jv] obj_key_len [OF ok] by linarith
  show ?case
  proof (cases "after_item 125 z")
    case (SepClose r')
    then show ?thesis using "6.prems" ok jv zs after_item_len(1) [OF SepClose] by (simp del: jvalue.simps)
  next
    case (SepMore r')
    then have "jobject n r' ((k, x) # acc) = Inr (v, r)" using "6.prems" ok jv by (simp del: jvalue.simps)
    then show ?thesis using "6.IH"(2) [OF ok refl jv refl SepMore] zs after_item_len(2) [OF SepMore] by fastforce
  next
    case SepBad
    then show ?thesis using "6.prems" ok jv by (simp del: jvalue.simps)
  qed
qed simp_all

subsection \<open>The fuel\<close>

lemma scan_str_no_fuel: "scan_str acc s \<noteq> Inl OutOfFuel"
  by (induction acc s rule: scan_str.induct) (auto split: option.splits)

lemma json_constant_no_fuel: "json_constant s \<noteq> Inl OutOfFuel"
  by (auto simp: json_constant_def scan_number_def split: prod.splits option.splits)

lemma obj_key_no_fuel: "obj_key s \<noteq> Inl OutOfFuel"
  using scan_str_no_fuel [of "[]" "tl s"]
  by (auto simp: obj_key_def Let_def split: sum.splits prod.splits)

lemma json_fuel_enough:
  "length s < n \<Longrightarrow> jvalue n s \<noteq> Inl OutOfFuel"
  "length s < n \<Longrightarrow> jarray n s acc \<noteq> Inl OutOfFuel"
  "length s < n \<Longrightarrow> jobject n s acc' \<noteq> Inl OutOfFuel"
proof (induction n s and n s acc and n s acc' rule: jvalue_jarray_jobject.induct)
  case (2 n s)
  show ?case
  proof (cases s)
    case (Cons c cs)
    have lr: "length r < n" if "open_container c' cs = Inr r" for c' r
      using "2.prems" Cons open_container_len(2) [OF that] by simp
    show ?thesis
      using "2.IH" [OF Cons] lr Cons scan_str_no_fuel [of "[]" cs] json_constant_no_fuel [of s]
      by (auto split: sum.splits prod.splits)
  qed simp
next
  case (4 n s acc)
  show ?case
  proof (cases "jvalue (Suc n) s")
    case (Inl e)
    then show ?thesis using "4.IH"(1) "4.prems" by (simp del: jvalue.simps)
  next
    case (Inr p)
    obtain x y where jv: "jvalue (Suc n) s = Inr (x, y)" using Inr by (cases p) auto
    have "length r' < n" if "after_item 93 y = SepMore r'" for r'
      using json_consumes(1) [OF jv] "4.prems" after_item_len(2) [OF that] by linarith
    then show ?thesis
      using "4.IH"(2) [OF jv refl] jv by (auto simp del: jvalue.simps split: sep.splits)
  qed
next
  case (6 n s acc)
  show ?case
  proof (cases "obj_key s")
    case (Inl e)
    then show ?thesis using obj_key_no_fuel [of s] by simp
  next
    case (Inr p)
    obtain k y where ok: "obj_key s = Inr (k, y)" using Inr by (cases p) auto
    have ln: "length y < Suc n" using obj_key_len [OF ok] "6.prems" by linarith
    show ?thesis
    proof (cases "jvalue (Suc n) y")
      case (Inl e)
      then show ?thesis using "6.IH"(1) [OF ok refl ln] ok by (simp del: jvalue.simps)
    next
      case (Inr q)
      obtain x z where jv: "jvalue (Suc n) y = Inr (x, z)" using Inr by (cases q) auto
      have "length r' < n" if "after_item 125 z = SepMore r'" for r'
        using json_consumes(1) [OF jv] ln after_item_len(2) [OF that] by linarith
      then show ?thesis
        using "6.IH"(2) [OF ok refl jv refl] ok jv by (auto simp del: jvalue.simps split: sep.splits)
    qed
  qed
qed simp_all

lemma jvalue_leaf: "c \<noteq> 123 \<Longrightarrow> c \<noteq> 91 \<Longrightarrow> jvalue (Suc n) (c # cs) = jvalue (Suc m) (c # cs)"
  by simp

lemma jvalue_obj: "open_container 125 cs = Inr r \<Longrightarrow> jvalue (Suc n) (123 # cs) = jobject n r []"
  by simp

lemma jvalue_arr: "open_container 93 cs = Inr r \<Longrightarrow> jvalue (Suc n) (91 # cs) = jarray n r []"
  by simp

lemma json_fuel_mono:
  "jvalue n s \<noteq> Inl OutOfFuel \<Longrightarrow> n \<le> m \<Longrightarrow> jvalue m s = jvalue n s"
  "jarray n s acc \<noteq> Inl OutOfFuel \<Longrightarrow> n \<le> m \<Longrightarrow> jarray m s acc = jarray n s acc"
  "jobject n s acc' \<noteq> Inl OutOfFuel \<Longrightarrow> n \<le> m \<Longrightarrow> jobject m s acc' = jobject n s acc'"
proof (induction n s and n s acc and n s acc' arbitrary: m and m and m
    rule: jvalue_jarray_jobject.induct)
  case (2 n s)
  obtain m' where m: "m = Suc m'" using "2.prems"(2) by (cases m) auto
  show ?case
  proof (cases s)
    case Nil
    then show ?thesis by (simp add: m)
  next
    case (Cons c cs)
    consider "c = 123" | "c = 91" | "c \<noteq> 123" "c \<noteq> 91" by blast
    then show ?thesis
    proof cases
      case 1
      show ?thesis
      proof (cases "open_container 125 cs")
        case (Inr r)
        have "jobject n r [] \<noteq> Inl OutOfFuel" using "2.prems"(1) jvalue_obj [OF Inr, of n] by (simp add: Cons 1)
        then show ?thesis using "2.IH"(1) [OF Cons _ _ Inr, of m'] "2.prems"(2) by (simp add: Cons 1 m Inr)
      qed (simp add: Cons 1 m)
    next
      case 2
      show ?thesis
      proof (cases "open_container 93 cs")
        case (Inr r)
        have "jarray n r [] \<noteq> Inl OutOfFuel" using "2.prems"(1) jvalue_arr [OF Inr, of n] by (simp add: Cons 2)
        then show ?thesis using "2.IH"(2) [OF Cons _ _ _ Inr, of m'] "2.prems"(2) by (simp add: Cons 2 m Inr)
      qed (simp add: Cons 2 m)
    next
      case 3
      show ?thesis unfolding Cons m by (rule sym, rule jvalue_leaf [OF 3])
    qed
  qed
next
  case (4 n s acc)
  obtain m' where m: "m = Suc m'" using "4.prems"(2) by (cases m) auto
  have jv_ne: "jvalue (Suc n) s \<noteq> Inl OutOfFuel"
    using "4.prems"(1) by (auto simp del: jvalue.simps)
  have jv: "jvalue m s = jvalue (Suc n) s" using "4.IH"(1) [OF jv_ne "4.prems"(2)] .
  show ?case
  proof (cases "jvalue (Suc n) s")
    case (Inr p)
    obtain x y where p: "jvalue (Suc n) s = Inr (x, y)" using Inr by (cases p) auto
    show ?thesis
    proof (cases "after_item 93 y")
      case (SepMore r')
      have ne: "jarray n r' (x # acc) \<noteq> Inl OutOfFuel" using "4.prems"(1) p SepMore by (simp del: jvalue.simps)
      show ?thesis using "4.IH"(2) [OF p refl SepMore ne, of m'] SepMore p jv m "4.prems"(2)
        by (simp del: jvalue.simps)
    qed (use p jv m in \<open>simp_all del: jvalue.simps\<close>)
  qed (use jv m in \<open>simp del: jvalue.simps\<close>)
next
  case (6 n s acc)
  obtain m' where m: "m = Suc m'" using "6.prems"(2) by (cases m) auto
  show ?case
  proof (cases "obj_key s")
    case (Inr p)
    obtain k y where ok: "obj_key s = Inr (k, y)" using Inr by (cases p) auto
    have jv_ne: "jvalue (Suc n) y \<noteq> Inl OutOfFuel"
      using "6.prems"(1) ok by (auto simp del: jvalue.simps)
    have jv: "jvalue m y = jvalue (Suc n) y"
      using "6.IH"(1) [OF ok refl jv_ne] "6.prems"(2) by simp
    show ?thesis
    proof (cases "jvalue (Suc n) y")
      case (Inr q)
      obtain x z where q: "jvalue (Suc n) y = Inr (x, z)" using Inr by (cases q) auto
      show ?thesis
      proof (cases "after_item 125 z")
        case (SepMore r')
        have ne: "jobject n r' ((k, x) # acc) \<noteq> Inl OutOfFuel"
          using "6.prems"(1) ok q SepMore by (simp del: jvalue.simps)
        show ?thesis using "6.IH"(2) [OF ok refl q refl SepMore ne, of m'] ok q SepMore jv m "6.prems"(2)
          by (simp del: jvalue.simps)
      qed (use ok q jv m in \<open>simp_all del: jvalue.simps\<close>)
    qed (use ok jv m in \<open>simp del: jvalue.simps\<close>)
  qed (simp add: m)
qed simp_all

lemma jvalue_fuel_limit:
  assumes "\<exists>n0. \<forall>n\<ge>n0. jvalue n s = Inr x"
  shows "jvalue (Suc (length s)) s = Inr x"
proof -
  obtain n0 where n0: "\<forall>n\<ge>n0. jvalue n s = Inr x" using assms by blast
  have "jvalue (max n0 (Suc (length s))) s = jvalue (Suc (length s)) s"
    using json_fuel_mono(1) [OF json_fuel_enough(1) [of s "Suc (length s)"], of "max n0 (Suc (length s))"]
    by (simp del: jvalue.simps)
  then show ?thesis using n0 by (simp del: jvalue.simps)
qed

subsection \<open>Dicts built by assignment\<close>

lemma map_of_dict_set: "map_of (dict_set d (a, b)) = (map_of d)(a \<mapsto> b)"
proof
  fix k
  let ?F = "\<lambda>(k', v'). if k' = a then (k', b) else (k', v')"
  have m: "map_of (map ?F d) k = (if k = a \<and> a \<in> set (map fst d) then Some b else map_of d k)"
  proof (induction d)
    case (Cons p d)
    obtain k1 v1 where "p = (k1, v1)" by (cases p)
    then show ?case using Cons.IH by (cases "k1 = a") (force simp: image_iff)+
  qed simp
  have n: "a \<notin> set (map fst d) \<Longrightarrow> map_of d a = None"
    by (simp add: map_of_eq_None_iff)
  have e1: "a \<in> set (map fst d) \<Longrightarrow> dict_set d (a, b) = map ?F d"
    by (simp add: dict_set_def split_def)
  have e2: "a \<notin> set (map fst d) \<Longrightarrow> dict_set d (a, b) = d @ [(a, b)]"
    by (simp add: dict_set_def)
  show "map_of (dict_set d (a, b)) k = ((map_of d)(a \<mapsto> b)) k"
  proof (cases "a \<in> set (map fst d)")
    case True
    show ?thesis unfolding e1 [OF True] using m True by simp
  next
    case False
    show ?thesis unfolding e2 [OF False] using n False by (simp add: map_add_def split: option.splits)
  qed
qed

lemma map_of_dict_from_pairs: "map_of (dict_from_pairs ps) = map_of (rev ps)"
proof -
  have "map_of (foldl dict_set d ps) = map_of d ++ map_of (rev ps)" for d
  proof (induction ps arbitrary: d)
    case (Cons p ps)
    then show ?case by (cases p) (auto simp: map_of_dict_set map_add_def fun_eq_iff split: option.splits)
  qed simp
  then show ?thesis by (simp add: dict_from_pairs_def)
qed

lemma foldl_upd_map_of: "foldl (\<lambda>m (k, v). m(k \<mapsto> v)) m0 ps = m0 ++ map_of (rev ps)"
proof (induction ps arbitrary: m0)
  case (Cons p ps)
  then show ?case by (cases p) (auto simp: map_add_def fun_eq_iff split: option.splits)
qed simp

lemma dict_set_keys: "fst ` set (dict_set d kv) = fst ` set d \<union> {fst kv}"
proof (cases "fst kv \<in> set (map fst d)")
  case True
  let ?F = "\<lambda>(k', v'). if k' = fst kv then (k', snd kv) else (k', v')"
  have "map fst (map ?F d) = map fst d" by (induction d) auto
  moreover have "dict_set d kv = map ?F d" unfolding dict_set_def using True by (rule if_P)
  ultimately have "set (map fst (dict_set d kv)) = set (map fst d)" by simp
  then show ?thesis using True by auto
next
  case False
  then have "dict_set d kv = d @ [kv]" unfolding dict_set_def by (rule if_not_P)
  then show ?thesis by auto
qed

lemma dict_set_ok:
  "distinct (map fst d) \<Longrightarrow> distinct (map fst (dict_set d kv)) \<and> set (dict_set d kv) \<subseteq> set d \<union> {kv}"
proof -
  assume d: "distinct (map fst d)"
  let ?F = "\<lambda>(k', v'). if k' = fst kv then (k', snd kv) else (k', v')"
  have m: "map fst (map ?F d) = map fst d"
    by (induction d) auto
  have st: "set (map ?F d) \<subseteq> set d \<union> {kv}"
  proof
    fix x assume "x \<in> set (map ?F d)"
    then obtain a b where ab: "(a, b) \<in> set d" "x = (if a = fst kv then (a, snd kv) else (a, b))" by auto
    then show "x \<in> set d \<union> {kv}" by (cases "a = fst kv") auto
  qed
  show ?thesis
  proof (cases "fst kv \<in> set (map fst d)")
    case True
    then have "dict_set d kv = map ?F d" by (simp add: dict_set_def)
    then show ?thesis using d st by (simp only: m)
  next
    case False
    then show ?thesis using d by (auto simp: dict_set_def)
  qed
qed

lemma dict_from_pairs_ok:
  "list_all P ps \<Longrightarrow> distinct (map fst (dict_from_pairs ps)) \<and> list_all P (dict_from_pairs ps)"
proof -
  have "distinct (map fst d) \<Longrightarrow> list_all P d \<Longrightarrow> list_all P ps \<Longrightarrow>
        distinct (map fst (foldl dict_set d ps)) \<and> list_all P (foldl dict_set d ps)" for d
  proof (induction ps arbitrary: d)
    case (Cons p ps)
    have "distinct (map fst (dict_set d p))" "list_all P (dict_set d p)"
      using dict_set_ok [OF Cons.prems(1), of p] Cons.prems(2,3) by (auto simp: list_all_iff)
    then show ?case using Cons.IH [of "dict_set d p"] Cons.prems(3) by simp
  qed simp
  then show "list_all P ps \<Longrightarrow> ?thesis" by (simp add: dict_from_pairs_def)
qed

lemma foldl_dict_set_distinct:
  "distinct (map fst (d @ ps)) \<Longrightarrow> foldl dict_set d ps = d @ ps"
proof (induction ps arbitrary: d)
  case (Cons p ps)
  then have "dict_set d p = d @ [p]" by (auto simp: dict_set_def)
  then show ?case using Cons.IH [of "d @ [p]"] Cons.prems by simp
qed simp

lemma dict_from_pairs_distinct: "distinct (map fst ps) \<Longrightarrow> dict_from_pairs ps = ps"
  using foldl_dict_set_distinct [of "[]" ps] by (simp add: dict_from_pairs_def)

lemma skip_ws_nows: "\<not> json_ws c \<Longrightarrow> skip_ws (c # t) = c # t"
  by (simp add: skip_ws_def)

lemma skip_ws_space: "skip_ws (32 # t) = skip_ws t"
  by (simp add: skip_ws_def json_ws_def)

lemma json_constant_keys_ok: "json_constant s = Inr (v, r) \<Longrightarrow> json_keys_ok v"
  by (auto simp: json_constant_def scan_number_def float_value_def split: if_splits prod.splits option.splits)

lemma json_keys_decoded:
  "jvalue n s = Inr (v, r) \<Longrightarrow> json_keys_ok v"
  "jarray n s acc = Inr (v, r) \<Longrightarrow> list_all json_keys_ok acc \<Longrightarrow> json_keys_ok v"
  "jobject n s acc' = Inr (v, r) \<Longrightarrow> list_all (\<lambda>(k, v). json_keys_ok v) acc' \<Longrightarrow> json_keys_ok v"
proof (induction n s and n s acc and n s acc' arbitrary: v r and v r and v r
    rule: jvalue_jarray_jobject.induct)
  case (2 n s)
  show ?case
  proof (cases s)
    case (Cons c cs)
    show ?thesis
      using "2.prems" "2.IH" [OF Cons] Cons json_constant_keys_ok [of s v r]
      by (auto split: if_splits sum.splits prod.splits)
  qed (use "2.prems" in simp)
next
  case (4 n s acc)
  obtain x y where jv: "jvalue (Suc n) s = Inr (x, y)"
    using "4.prems"(1) by (auto split: sum.splits)
  have x: "json_keys_ok x" using "4.IH"(1) [OF jv] .
  show ?case
  proof (cases "after_item 93 y")
    case (SepMore r')
    then have rec: "jarray n r' (x # acc) = Inr (v, r)" using "4.prems"(1) jv by (simp del: jvalue.simps)
    show ?thesis using "4.IH"(2) [OF jv refl SepMore rec] "4.prems"(2) x by simp
  qed (use "4.prems" jv x in \<open>auto simp del: jvalue.simps\<close>)
next
  case (6 n s acc)
  note pr = "6.prems"(1)
  obtain k y where ok: "obj_key s = Inr (k, y)"
    using pr by (auto split: sum.splits)
  obtain x z where jv: "jvalue (Suc n) y = Inr (x, z)"
    using pr ok by (auto simp del: jvalue.simps split: sum.splits)
  have x: "json_keys_ok x" using "6.IH"(1) [OF ok refl jv] .
  have acc': "list_all (\<lambda>(k, v). json_keys_ok v) ((k, x) # acc)" using x "6.prems"(2) by simp
  show ?case
  proof (cases "after_item 125 z")
    case (SepClose r')
    then have "v = JDict (dict_from_pairs (rev ((k, x) # acc)))"
      using pr ok jv by (simp del: jvalue.simps)
    then show ?thesis using dict_from_pairs_ok [of "\<lambda>(k, v). json_keys_ok v" "rev ((k, x) # acc)"] acc'
      by simp
  next
    case (SepMore r')
    then have rec: "jobject n r' ((k, x) # acc) = Inr (v, r)" using pr ok jv by (simp del: jvalue.simps)
    show ?thesis using "6.IH"(2) [OF ok refl jv refl SepMore rec] acc' by simp
  next
    case SepBad
    then show ?thesis using pr ok jv by (simp del: jvalue.simps)
  qed
qed simp_all

subsection \<open>Properties of the decoder\<close>

text \<open>
  The scan \<open>json_loads\<close> runs on a text never runs out of fuel, and
  any larger fuel gives the same result: \<open>json_loads\<close> computes what the unbounded
  recursive scanner computes, and that scanner terminates on every input.
\<close>

theorem json_loads_fuel:
  "jvalue (Suc (length s)) (skip_ws s) \<noteq> Inl OutOfFuel \<and>
   jvalue (Suc (length s) + k) (skip_ws s) = jvalue (Suc (length s)) (skip_ws s)"
proof -
  have "length (skip_ws s) < Suc (length s)" using skip_ws_le [of s] by simp
  then have ne: "jvalue (Suc (length s)) (skip_ws s) \<noteq> Inl OutOfFuel" by (rule json_fuel_enough(1))
  then show ?thesis using json_fuel_mono(1) [OF ne, of "Suc (length s) + k"] by (simp del: jvalue.simps)
qed

text \<open>
  Every value \<open>json_loads\<close> returns is well formed: each dict in it, at any
  depth, has distinct keys, whatever duplicates the text had.
\<close>

theorem json_decoded_keys: "json_loads s = Inr v \<Longrightarrow> json_keys_ok v"
  by (auto simp: json_loads_def simp del: jvalue.simps split: if_splits sum.splits prod.splits jerr.splits
      dest: json_keys_decoded(1))

text \<open>
  The association list an object's members build implements the dict of
  successive assignments \<open>d[k] = v\<close>: it looks up as the map updated with each pair in
  turn (the last value of a key wins), has distinct keys, and has exactly the keys of the
  members.
\<close>

theorem dict_from_pairs_refines:
  "map_of (dict_from_pairs ps) = foldl (\<lambda>m (k, v). m(k \<mapsto> v)) Map.empty ps \<and>
   distinct (map fst (dict_from_pairs ps)) \<and> set (map fst (dict_from_pairs ps)) = set (map fst ps)"
proof (intro conjI)
  show "map_of (dict_from_pairs ps) = foldl (\<lambda>m (k, v). m(k \<mapsto> v)) Map.empty ps"
    by (simp add: map_of_dict_from_pairs foldl_upd_map_of)
  show "distinct (map fst (dict_from_pairs ps))"
    using dict_from_pairs_ok [of "\<lambda>_. True" ps] by (simp add: list_all_iff)
  have "set (map fst (foldl dict_set d ps)) = set (map fst d) \<union> set (map fst ps)" for d
    by (induction ps arbitrary: d) (auto simp: dict_set_keys)
  then show "set (map fst (dict_from_pairs ps)) = set (map fst ps)" by (simp add: dict_from_pairs_def)
qed

text \<open>
  A numeral of more than 4300 digits makes \<open>json_loads\<close> raise the
  \<open>ValueError\<close> of \<open>int\<close>, not a \<open>JSONDecodeError\<close>.
\<close>

theorem json_loads_int_digits:
  assumes "list_all is_digit ds" "ds \<noteq> []" "hd ds \<noteq> 48" "4300 < length ds"
  shows "json_loads ds = Inl ValueError"
proof -
  obtain d ds' where d: "ds = d # ds'" using assms(2) by (cases ds) auto
  have dig: "49 \<le> d" "d \<le> 57" "list_all is_digit ds'" using assms(1,3) d by (auto simp: is_digit_def)
  have tw: "takeWhile is_digit ds' = ds'" "dropWhile is_digit ds' = []"
    using dig(3) takeWhile_all [of is_digit ds' "[]"] dropWhile_all [of is_digit ds' "[]"] by simp_all
  have sn: "scan_number ds = Inl IntDigits"
    using d dig assms(4) by (simp add: tw scan_number_def take_minus_def int_part_def take_frac_def take_exp_def)
  have "json_constant ds = Inl IntDigits"
    using sn d dig by (simp add: json_constant_def starts_with_def pystr_def)
  moreover have "skip_ws ds = ds" using d dig by (simp add: skip_ws_nows json_ws_def)
  ultimately show ?thesis using d dig by (simp add: json_loads_def)
qed

end
