(* ===== verification/JsonEncode.thy ===== *)
theory JsonEncode
  imports JsonDecode
begin

text \<open>
  The serialised \<open>items\<close> of a receipt (spec, section 3: the stored text that
  \<open>product_receipt_detail\<close> decodes). The code that writes them is not in
  \<open>src/\<close>; it is modelled as Python's \<open>json.dumps\<close> with its defaults
  (\<open>ensure_ascii\<close>, separators \<open>', '\<close> and \<open>': '\<close>): \<open>py_encode_basestring_ascii\<close>
  escapes a string, \<open>int.__repr__\<close> writes an integer (and rejects more than 4300
  digits), \<open>NaN\<close> and the infinities are written as names. A finite float is written
  by \<open>float.__repr__\<close>, which is not modelled: \<open>json_dumps\<close> is \<open>None\<close> there.
  The round trip \<open>json_loads (json_dumps v) = v\<close> holds for the values Python can
  write whose strings have no high surrogate right before a low one.
\<close>

section \<open>The encoder\<close>

text \<open>\<open>py_encode_basestring_ascii\<close>: the two-character escapes, printable ASCII as is,
  everything else as \<open>\uXXXX\<close> in lower-case hex, above the BMP as a surrogate pair.\<close>

definition hex_digit :: "nat \<Rightarrow> nat" where
  "hex_digit d = (if d < 10 then 48 + d else 87 + d)"

definition hex4_text :: "nat \<Rightarrow> ustr" where
  "hex4_text n = [hex_digit (n div 4096 mod 16), hex_digit (n div 256 mod 16),
                  hex_digit (n div 16 mod 16), hex_digit (n mod 16)]"

definition u_text :: "nat \<Rightarrow> ustr" where
  "u_text n = 92 # 117 # hex4_text n"

definition escape_ascii :: "nat \<Rightarrow> ustr" where
  "escape_ascii c =
     (if c = 92 then [92, 92] else if c = 34 then [92, 34]
      else if c = 8 then [92, 98] else if c = 12 then [92, 102] else if c = 10 then [92, 110]
      else if c = 13 then [92, 114] else if c = 9 then [92, 116]
      else if 32 \<le> c \<and> c \<le> 126 then [c]
      else if c < 65536 then u_text c
      else u_text (55296 + (c - 65536) div 1024 mod 1024) @ u_text (56320 + (c - 65536) mod 1024))"

definition encode_str :: "ustr \<Rightarrow> ustr" where
  "encode_str s = 34 # concat (map escape_ascii s) @ [34]"

text \<open>\<open>', '.join\<close> of the encoded items.\<close>

fun join_items :: "ustr list \<Rightarrow> ustr" where
  "join_items [] = []"
| "join_items [t] = t"
| "join_items (t # ts) = t @ pystr '', '' @ join_items ts"

fun json_dumps :: "pyjson \<Rightarrow> ustr option" where
  "json_dumps JNone = Some (pystr ''null'')"
| "json_dumps (JBool b) = Some (if b then pystr ''true'' else pystr ''false'')"
| "json_dumps (JInt k) = (if 4300 < length (nat_digits (nat \<bar>k\<bar>)) then None else Some (int_text k))"
| "json_dumps (JFloat JNaN) = Some (pystr ''NaN'')"
| "json_dumps (JFloat (JInf neg)) = Some (if neg then pystr ''-Infinity'' else pystr ''Infinity'')"
| "json_dumps (JFloat (JFin neg m e)) = None"
| "json_dumps (JStr s) = Some (encode_str s)"
| "json_dumps (JList vs) =
     map_option (\<lambda>ts. 91 # join_items ts @ [93]) (those (map json_dumps vs))"
| "json_dumps (JDict kvs) =
     map_option (\<lambda>ts. 123 # join_items ts @ [125])
       (those (map (\<lambda>(k, v). map_option (\<lambda>t. encode_str k @ pystr '': '' @ t) (json_dumps v)) kvs))"

text \<open>The values the round trip holds for: code points below \<open>0x110000\<close>, no high
  surrogate followed by a low one in a string, distinct keys in a dict.\<close>

fun no_split_pair :: "ustr \<Rightarrow> bool" where
  "no_split_pair (a # b # r) = (\<not> (is_high_surrogate a \<and> is_low_surrogate b) \<and> no_split_pair (b # r))"
| "no_split_pair _ = True"

definition str_ok :: "ustr \<Rightarrow> bool" where
  "str_ok s \<longleftrightarrow> list_all (\<lambda>c. c < 1114112) s \<and> no_split_pair s"

fun json_ok :: "pyjson \<Rightarrow> bool" where
  "json_ok (JStr s) = str_ok s"
| "json_ok (JList vs) = list_all json_ok vs"
| "json_ok (JDict kvs) = (distinct (map fst kvs) \<and> list_all (\<lambda>(k, v). str_ok k \<and> json_ok v) kvs)"
| "json_ok _ = True"

text \<open>What may follow an escaped code point without the decoder joining it with the
  next one, and what may follow an encoded value inside the text.\<close>

definition no_low_escape :: "ustr \<Rightarrow> bool" where
  "no_low_escape t \<longleftrightarrow>
     \<not> (7 \<le> length t \<and> t ! 0 = 92 \<and> t ! 1 = 117 \<and>
        (case hex4 (take 4 (drop 2 t)) of None \<Rightarrow> True | Some v \<Rightarrow> is_low_surrogate v))"

definition delim :: "ustr \<Rightarrow> bool" where
  "delim r \<longleftrightarrow> r = [] \<or> hd r = 44 \<or> hd r = 93 \<or> hd r = 125"

section \<open>Lemmas\<close>

subsection \<open>Strings\<close>

lemma hex_val_digit: "d < 16 \<Longrightarrow> hex_val (hex_digit d) = Some d"
  by (simp add: hex_val_def hex_digit_def)

lemma hex4_of_text: "n < 65536 \<Longrightarrow> hex4 (hex4_text n) = Some n"
proof -
  assume n: "n < 65536"
  have "n div 4096 mod 16 = n div 4096" "n div 4096 < 16" using n by simp_all
  moreover have "((n div 4096 * 16 + n div 256 mod 16) * 16 + n div 16 mod 16) * 16 + n mod 16 = n"
  proof -
    have a: "n div 256 = n div 4096 * 16 + n div 256 mod 16"
      using div_mult_mod_eq [of "n div 256" 16] div_mult2_eq [of n 256 16] by simp
    have b: "n div 16 = n div 256 * 16 + n div 16 mod 16"
      using div_mult_mod_eq [of "n div 16" 16] div_mult2_eq [of n 16 16] by simp
    have c: "n = n div 16 * 16 + n mod 16" by simp
    show ?thesis using a b c by simp
  qed
  ultimately show ?thesis by (simp add: hex4_text_def hex_val_digit)
qed

lemma length_hex4_text [simp]: "length (hex4_text n) = 4"
  by (simp add: hex4_text_def)

lemma u_escape_bmp:
  "n < 65536 \<Longrightarrow> t \<noteq> [] \<Longrightarrow> (is_high_surrogate n \<longrightarrow> no_low_escape t) \<Longrightarrow>
   u_escape (hex4_text n @ t) = Some (n, t)"
  by (cases t) (auto simp: u_escape_def hex4_of_text no_low_escape_def Let_def split: option.splits)

lemma u_escape_pair:
  "is_high_surrogate h \<Longrightarrow> is_low_surrogate l \<Longrightarrow> t \<noteq> [] \<Longrightarrow>
   u_escape (hex4_text h @ u_text l @ t) = Some (join_surrogates h l, t)"
  by (cases t) (simp_all add: u_escape_def hex4_of_text u_text_def is_high_surrogate_def is_low_surrogate_def)

lemma split_surrogates:
  assumes "65536 \<le> c" "c < 1114112"
  shows "is_high_surrogate (55296 + (c - 65536) div 1024 mod 1024)"
    "is_low_surrogate (56320 + (c - 65536) mod 1024)"
    "join_surrogates (55296 + (c - 65536) div 1024 mod 1024) (56320 + (c - 65536) mod 1024) = c"
proof -
  have q: "(c - 65536) div 1024 < 1024" using assms(2) by simp
  then show "is_high_surrogate (55296 + (c - 65536) div 1024 mod 1024)"
    by (simp add: is_high_surrogate_def)
  show "is_low_surrogate (56320 + (c - 65536) mod 1024)" by (simp add: is_low_surrogate_def)
  show "join_surrogates (55296 + (c - 65536) div 1024 mod 1024) (56320 + (c - 65536) mod 1024) = c"
    using q assms(1) div_mult_mod_eq [of "c - 65536" 1024] by (simp add: join_surrogates_def)
qed

lemma escape_step:
  assumes "c < 1114112" "t \<noteq> []" "is_high_surrogate c \<longrightarrow> no_low_escape t"
  shows "scan_str acc (escape_ascii c @ t) = scan_str (c # acc) t"
proof -
  consider "c = 92 \<or> c = 34 \<or> c = 8 \<or> c = 12 \<or> c = 10 \<or> c = 13 \<or> c = 9"
    | "c \<noteq> 92" "c \<noteq> 34" "32 \<le> c" "c \<le> 126"
    | "\<not> (32 \<le> c \<and> c \<le> 126)" "c \<noteq> 8" "c \<noteq> 12" "c \<noteq> 10" "c \<noteq> 13" "c \<noteq> 9" "c < 65536"
    | "65536 \<le> c" by linarith
  then show ?thesis
  proof cases
    case 1
    then show ?thesis by (auto simp: escape_ascii_def escape_char_def simple_escape_def)
  next
    case 2
    then show ?thesis by (simp add: escape_ascii_def)
  next
    case 3
    then have "escape_ascii c = u_text c" by (auto simp: escape_ascii_def)
    moreover have "\<not> c \<le> 31 \<Longrightarrow> c \<noteq> 34 \<and> c \<noteq> 92" using 3 by auto
    ultimately show ?thesis using 3 assms u_escape_bmp [of c t]
      by (simp add: u_text_def escape_char_def)
  next
    case 4
    then show ?thesis using assms split_surrogates [OF 4 assms(1)]
      u_escape_pair [where t = t, OF split_surrogates(1,2) [OF 4 assms(1)]]
      by (simp add: escape_ascii_def u_text_def escape_char_def)
  qed
qed

lemma no_low_escape_start:
  "a \<noteq> 92 \<Longrightarrow> no_low_escape (a # t)"
  "b \<noteq> 117 \<Longrightarrow> no_low_escape (92 # b # t)"
  "n < 65536 \<Longrightarrow> \<not> is_low_surrogate n \<Longrightarrow> no_low_escape (u_text n @ t)"
  by (simp_all add: no_low_escape_def u_text_def hex4_of_text)

lemma no_low_escape_char:
  assumes "d < 1114112" "\<not> is_low_surrogate d"
  shows "no_low_escape (escape_ascii d @ t)"
proof -
  consider "d = 92 \<or> d = 34 \<or> d = 8 \<or> d = 12 \<or> d = 10 \<or> d = 13 \<or> d = 9"
    | "d \<noteq> 92" "d \<noteq> 34" "32 \<le> d" "d \<le> 126"
    | "\<not> (32 \<le> d \<and> d \<le> 126)" "d \<noteq> 8" "d \<noteq> 12" "d \<noteq> 10" "d \<noteq> 13" "d \<noteq> 9" "d < 65536"
    | "65536 \<le> d" by linarith
  then show ?thesis
  proof cases
    case 1
    then show ?thesis by (auto simp: escape_ascii_def no_low_escape_start(2))
  next
    case 2
    then show ?thesis by (simp add: escape_ascii_def no_low_escape_start(1))
  next
    case 3
    then have "escape_ascii d = u_text d" by (auto simp: escape_ascii_def)
    then show ?thesis using 3 assms(2) by (simp add: no_low_escape_start(3))
  next
    case 4
    have "\<not> is_low_surrogate (55296 + (d - 65536) div 1024 mod 1024)"
      using split_surrogates(1) [OF 4 assms(1)] by (simp add: is_high_surrogate_def is_low_surrogate_def)
    moreover have "55296 + (d - 65536) div 1024 mod 1024 < 65536" by simp
    ultimately show ?thesis using 4 no_low_escape_start(3)
      by (simp add: escape_ascii_def)
  qed
qed

lemma no_split_pair_tl: "no_split_pair (c # s) \<Longrightarrow> no_split_pair s"
  by (cases s) auto

lemma scan_encoded:
  "str_ok s \<Longrightarrow> scan_str acc (concat (map escape_ascii s) @ 34 # rest) = Inr (rev acc @ s, rest)"
proof (induction s arbitrary: acc)
  case Nil
  then show ?case by simp
next
  case (Cons c s)
  have ok: "str_ok s" using Cons.prems by (auto simp: str_ok_def dest: no_split_pair_tl)
  have nl: "is_high_surrogate c \<longrightarrow> no_low_escape (concat (map escape_ascii s) @ 34 # rest)"
  proof (cases s)
    case Nil
    then show ?thesis by (simp add: no_low_escape_def)
  next
    case (Cons d s')
    have "d < 1114112" "is_high_surrogate c \<longrightarrow> \<not> is_low_surrogate d"
      using Cons.prems \<open>s = d # s'\<close> by (simp_all add: str_ok_def)
    then show ?thesis using no_low_escape_char [of d] \<open>s = d # s'\<close> by auto
  qed
  have "scan_str acc (escape_ascii c @ concat (map escape_ascii s) @ 34 # rest)
        = scan_str (c # acc) (concat (map escape_ascii s) @ 34 # rest)"
    using Cons.prems nl by (intro escape_step) (auto simp: str_ok_def)
  then show ?case using Cons.IH [OF ok, of "c # acc"] by simp
qed

subsection \<open>Integers and the shape of an encoding\<close>

lemma nat_digits_lead: "nat_digits n = 48 # ds \<Longrightarrow> n = 0 \<and> ds = []"
proof (induction n arbitrary: ds rule: nat_digits.induct)
  case (1 n)
  show ?case
  proof (cases "n < 10")
    case True
    then show ?thesis using "1.prems" by (simp add: nat_digits.simps [of n])
  next
    case False
    obtain e es where e: "nat_digits (n div 10) = e # es" using nat_digits_hd by blast
    then have "e = 48" using "1.prems" False by (simp add: nat_digits.simps [of n])
    moreover have "0 < n div 10" using False by simp
    ultimately show ?thesis using "1.IH" [OF False, of es] e by simp
  qed
qed

lemma delim_digits:
  "delim rest \<Longrightarrow> takeWhile is_digit rest = [] \<and> dropWhile is_digit rest = rest \<and>
     take_frac rest = None \<and> take_exp rest = None"
  by (cases rest) (auto simp: delim_def is_digit_def take_frac_def take_exp_def split: list.splits)

lemma int_part_digits:
  assumes "delim rest"
  shows "int_part (nat_digits m @ rest) = Some (nat_digits m, rest)"
proof -
  obtain d ds where dd: "nat_digits m = d # ds" "is_digit d" using nat_digits_hd by blast
  have all: "list_all is_digit ds" using nat_digits_props [of m] dd(1) by simp
  show ?thesis
  proof (cases "d = 48")
    case True
    then show ?thesis using nat_digits_lead [of m ds] dd(1) by (simp add: int_part_def)
  next
    case False
    then show ?thesis using dd all delim_digits [OF assms]
      by (auto simp: int_part_def is_digit_def takeWhile_all dropWhile_all)
  qed
qed

lemma scan_int_text:
  "delim rest \<Longrightarrow> length (nat_digits (nat \<bar>k\<bar>)) \<le> 4300 \<Longrightarrow> scan_number (int_text k @ rest) = Inr (JInt k, rest)"
proof -
  assume r: "delim rest" and len: "length (nat_digits (nat \<bar>k\<bar>)) \<le> 4300"
  obtain d ds where dd: "nat_digits (nat \<bar>k\<bar>) = d # ds" "is_digit d" using nat_digits_hd by blast
  have tm: "take_minus (int_text k @ rest) = (k < 0, nat_digits (nat \<bar>k\<bar>) @ rest)"
    using dd by (auto simp: take_minus_def int_text_def is_digit_def)
  have "signed_int (k < 0) (digits_val (nat_digits (nat \<bar>k\<bar>))) = k"
    using nat_digits_props [of "nat \<bar>k\<bar>"] by (simp add: signed_int_def)
  then show ?thesis using tm int_part_digits [OF r] delim_digits [OF r] len by (simp add: scan_number_def)
qed

lemma those_Cons_Some:
  "those (x # xs) = Some ys \<Longrightarrow> \<exists>y ys'. ys = y # ys' \<and> x = Some y \<and> those xs = Some ys'"
  by (auto split: option.splits)

lemma those_Nil_iff: "those (map f xs) = Some ys \<Longrightarrow> (ys = []) = (xs = [])"
  by (cases xs) (auto split: option.splits)

lemma encode_str_hd: "\<exists>t'. encode_str s = 34 # t'"
  by (simp add: encode_str_def)

lemma json_dumps_hd:
  "json_dumps v = Some t \<Longrightarrow>
   \<exists>c t'. t = c # t' \<and> \<not> json_ws c \<and> c \<noteq> 93 \<and> c \<noteq> 125 \<and> c \<noteq> 44 \<and> c \<noteq> 65279"
proof (cases v)
  case (JInt k)
  moreover obtain d ds where "nat_digits (nat \<bar>k\<bar>) = d # ds" "is_digit d" using nat_digits_hd by blast
  ultimately show "json_dumps v = Some t \<Longrightarrow> ?thesis"
    by (auto simp: int_text_def json_ws_def is_digit_def split: if_splits)
next
  case (JFloat x)
  then show "json_dumps v = Some t \<Longrightarrow> ?thesis"
    by (cases x) (auto simp: json_ws_def pystr_def)
qed (auto simp: json_ws_def pystr_def encode_str_def)

lemma join_items_Cons:
  "ts \<noteq> [] \<Longrightarrow> join_items (t # ts) = t @ 44 # 32 # join_items ts"
  by (cases ts) (simp_all add: pystr_def)

lemma join_items_hd:
  "t = c # t' \<Longrightarrow> \<exists>u. join_items (t # ts) = c # u"
  by (cases ts) auto

lemma json_constant_int:
  "delim rest \<Longrightarrow> length (nat_digits (nat \<bar>k\<bar>)) \<le> 4300 \<Longrightarrow> json_constant (int_text k @ rest) = Inr (JInt k, rest)"
proof -
  assume r: "delim rest" and len: "length (nat_digits (nat \<bar>k\<bar>)) \<le> 4300"
  obtain d ds where dd: "nat_digits (nat \<bar>k\<bar>) = d # ds" "is_digit d" using nat_digits_hd by blast
  have "\<not> starts_with (pystr p) (int_text k @ rest)"
    if "p \<in> {''null'', ''true'', ''false'', ''NaN'', ''Infinity'', ''-Infinity''}" for p
    using that dd by (auto simp: starts_with_def pystr_def int_text_def is_digit_def)
  then show ?thesis using scan_int_text [OF r len] by (simp add: json_constant_def)
qed

lemma jvalue_int:
  "delim rest \<Longrightarrow> length (nat_digits (nat \<bar>k\<bar>)) \<le> 4300 \<Longrightarrow> jvalue (Suc n) (int_text k @ rest) = Inr (JInt k, rest)"
proof -
  assume r: "delim rest" and len: "length (nat_digits (nat \<bar>k\<bar>)) \<le> 4300"
  obtain d ds where dd: "nat_digits (nat \<bar>k\<bar>) = d # ds" "is_digit d" using nat_digits_hd by blast
  obtain c u where "int_text k @ rest = c # u" "c \<noteq> 34" "c \<noteq> 123" "c \<noteq> 91"
    using dd by (cases "k < 0") (auto simp: int_text_def is_digit_def)
  then show ?thesis using json_constant_int [OF r len] by simp
qed

lemma jvalue_str: "str_ok s \<Longrightarrow> jvalue (Suc n) (encode_str s @ rest) = Inr (JStr s, rest)"
  using scan_encoded [of s "[]" rest] by (simp add: encode_str_def)

subsection \<open>Arrays and objects\<close>

lemma after_item_close: "\<not> json_ws c \<Longrightarrow> after_item c (c # rest) = SepClose rest"
  by (simp add: after_item_def skip_ws_nows)

lemma after_item_comma: "c \<noteq> 44 \<Longrightarrow> skip_ws u = u \<Longrightarrow> after_item c (44 # 32 # u) = SepMore u"
  by (simp add: after_item_def skip_ws_nows skip_ws_space json_ws_def)

lemma open_container_first: "\<not> json_ws c \<Longrightarrow> c \<noteq> close \<Longrightarrow> open_container close (c # u) = Inr (c # u)"
  by (simp add: open_container_def skip_ws_nows)

lemma jarray_last:
  "jvalue (Suc n) s = Inr (v, 93 # rest) \<Longrightarrow> jarray (Suc n) s acc = Inr (JList (rev acc @ [v]), rest)"
  by (simp add: after_item_close json_ws_def del: jvalue.simps)

lemma jarray_more:
  "jvalue (Suc n) s = Inr (v, 44 # 32 # u) \<Longrightarrow> skip_ws u = u \<Longrightarrow> jarray (Suc n) s acc = jarray n u (v # acc)"
  by (simp add: after_item_comma del: jvalue.simps)

lemma eventually_max:
  "\<exists>n1. \<forall>n\<ge>n1. P n \<Longrightarrow> \<exists>n2. \<forall>n\<ge>n2. Q n \<Longrightarrow> \<exists>n0. \<forall>n\<ge>n0. P (Suc n) \<and> Q n \<and> P n"
  by (metis le_SucI max.bounded_iff nat_le_linear)

lemma eventually_from_Suc: "(\<And>n. n0 \<le> n \<Longrightarrow> f (Suc n) = x) \<Longrightarrow> \<exists>n1. \<forall>n\<ge>n1. f n = x"
  by (metis Suc_le_D Suc_le_mono)

lemma join_items_key:
  assumes "those (map (\<lambda>(k, v). map_option (\<lambda>t. encode_str k @ pystr '': '' @ t) (json_dumps v)) kvs) = Some ts"
    and "kvs \<noteq> []"
  shows "\<exists>u. join_items ts = 34 # u"
proof -
  obtain k2 v2 kvs' where "kvs = (k2, v2) # kvs'" using assms(2) by (cases kvs) auto
  then obtain t2 ts'' where t2: "ts = (encode_str k2 @ pystr '': '' @ t2) # ts''"
    using assms(1) by (auto split: option.splits)
  obtain e where "encode_str k2 = 34 # e" using encode_str_hd by blast
  then show ?thesis using join_items_hd [of _ 34 "e @ pystr '': '' @ t2" ts''] t2 by auto
qed

lemma join_items_first:
  assumes "those (map json_dumps vs) = Some ts" "vs \<noteq> []"
  shows "\<exists>c u. join_items ts @ r = c # u \<and> \<not> json_ws c \<and> c \<noteq> 93"
proof -
  obtain v vs' where v: "vs = v # vs'" using assms(2) by (cases vs) auto
  then obtain t ts' where "ts = t # ts'" "json_dumps v = Some t" using assms(1) by (auto split: option.splits)
  moreover obtain c t' where "t = c # t'" "\<not> json_ws c" "c \<noteq> 93" using json_dumps_hd calculation(2) by blast
  ultimately show ?thesis using join_items_hd [of t c t' ts'] by auto
qed

lemma join_items_nows:
  "those (map json_dumps vs) = Some ts \<Longrightarrow> vs \<noteq> [] \<Longrightarrow> skip_ws (join_items ts @ r) = join_items ts @ r"
  using join_items_first [of vs ts r] by (auto simp: skip_ws_nows)

lemma jarray_dumps:
  assumes "\<And>v t r. v \<in> set vs \<Longrightarrow> json_dumps v = Some t \<Longrightarrow> delim r \<Longrightarrow>
             \<exists>n0. \<forall>n\<ge>n0. jvalue n (t @ r) = Inr (v, r)"
    and "those (map json_dumps vs) = Some ts" and "vs \<noteq> []"
  shows "\<exists>n0. \<forall>n\<ge>n0. jarray n (join_items ts @ 93 # rest) acc = Inr (JList (rev acc @ vs), rest)"
  using assms
proof (induction vs arbitrary: ts acc)
  case Nil
  then show ?case by simp
next
  case (Cons v vs)
  obtain t ts' where ts: "ts = t # ts'" "json_dumps v = Some t" "those (map json_dumps vs) = Some ts'"
    using Cons.prems(2) by (auto split: option.splits)
  show ?case
  proof (cases "vs = []")
    case True
    then have "ts' = []" using ts(3) by simp
    obtain n1 where n1: "\<forall>n\<ge>n1. jvalue n (t @ 93 # rest) = Inr (v, 93 # rest)"
      using Cons.prems(1) [of v t "93 # rest"] ts(2) by (auto simp: delim_def)
    have "jarray (Suc n) (join_items ts @ 93 # rest) acc = Inr (JList (rev acc @ v # vs), rest)"
      if "n1 \<le> n" for n
      unfolding ts(1) \<open>ts' = []\<close> join_items.simps(2) True
        by (rule jarray_last) (use n1 that le_SucI in blast)
    then show ?thesis by (rule eventually_from_Suc)
  next
    case False
    then have ne: "ts' \<noteq> []" using ts(3) those_Nil_iff by blast
    let ?u = "join_items ts' @ 93 # rest"
    have e1: "\<exists>n1. \<forall>n\<ge>n1. jvalue n (t @ 44 # 32 # ?u) = Inr (v, 44 # 32 # ?u)"
      using Cons.prems(1) [of v t "44 # 32 # ?u"] ts(2) by (auto simp: delim_def)
    have e2: "\<exists>n2. \<forall>n\<ge>n2. jarray n ?u (v # acc) = Inr (JList (rev (v # acc) @ vs), rest)"
      by (rule Cons.IH) (use Cons.prems(1) ts(3) False in auto)
    obtain n0 where n0: "\<forall>n\<ge>n0. jvalue (Suc n) (t @ 44 # 32 # ?u) = Inr (v, 44 # 32 # ?u)
        \<and> jarray n ?u (v # acc) = Inr (JList (rev (v # acc) @ vs), rest)
        \<and> jvalue n (t @ 44 # 32 # ?u) = Inr (v, 44 # 32 # ?u)"
      using eventually_max [OF e1 e2] by blast
    have sk: "skip_ws ?u = ?u" using join_items_nows [OF ts(3) False] .
    have "jarray (Suc n) (join_items ts @ 93 # rest) acc = Inr (JList (rev acc @ v # vs), rest)"
      if "n0 \<le> n" for n
    proof -
      have jv: "jvalue (Suc n) (t @ 44 # 32 # ?u) = Inr (v, 44 # 32 # ?u)" using n0 that by blast
      have "jarray n ?u (v # acc) = Inr (JList (rev (v # acc) @ vs), rest)" using n0 that by blast
      then show ?thesis unfolding ts(1) join_items_Cons [OF ne] append_assoc append_Cons
        by (simp only: jarray_more [OF jv sk]) simp
    qed
    then show ?thesis by (rule eventually_from_Suc)
  qed
qed

lemma jobject_key:
  assumes "str_ok k" "skip_ws (t @ r) = t @ r" "jvalue (Suc n) (t @ r) = Inr (v, r)"
  shows "jobject (Suc n) (encode_str k @ 58 # 32 # t @ r) acc =
    (case after_item 125 r of
       SepClose r' \<Rightarrow> Inr (JDict (dict_from_pairs (rev ((k, v) # acc))), r')
     | SepMore r' \<Rightarrow> jobject n r' ((k, v) # acc)
     | SepBad \<Rightarrow> Inl Malformed)"
proof -
  have "obj_key (encode_str k @ 58 # 32 # t @ r) = Inr (k, t @ r)"
    using scan_encoded [OF assms(1), of "[]" "58 # 32 # t @ r"] assms(2)
    by (simp add: obj_key_def encode_str_def skip_ws_nows skip_ws_space json_ws_def)
  then show ?thesis using assms(3) by (simp del: jvalue.simps)
qed

lemma jobject_dumps:
  assumes "\<And>k v t r. (k, v) \<in> set kvs \<Longrightarrow> json_dumps v = Some t \<Longrightarrow> delim r \<Longrightarrow>
             \<exists>n0. \<forall>n\<ge>n0. jvalue n (t @ r) = Inr (v, r)"
    and "those (map (\<lambda>(k, v). map_option (\<lambda>t. encode_str k @ pystr '': '' @ t) (json_dumps v)) kvs) = Some ts"
    and "kvs \<noteq> []" and "list_all (\<lambda>(k, v). str_ok k) kvs"
  shows "\<exists>n0. \<forall>n\<ge>n0. jobject n (join_items ts @ 125 # rest) acc
           = Inr (JDict (dict_from_pairs (rev acc @ kvs)), rest)"
  using assms
proof (induction kvs arbitrary: ts acc)
  case Nil
  then show ?case by simp
next
  case (Cons kv kvs)
  obtain k v where kv: "kv = (k, v)" by (cases kv)
  obtain t ts' where ts: "ts = (encode_str k @ 58 # 32 # t) # ts'" "json_dumps v = Some t"
    "those (map (\<lambda>(k, v). map_option (\<lambda>t. encode_str k @ pystr '': '' @ t) (json_dumps v)) kvs) = Some ts'"
    using Cons.prems(2) kv by (auto simp: pystr_def split: option.splits)
  have sk: "str_ok k" using Cons.prems(4) kv by simp
  obtain c t' where ct: "t = c # t'" "\<not> json_ws c" using json_dumps_hd [OF ts(2)] by blast
  show ?case
  proof (cases "kvs = []")
    case True
    then have "ts' = []" using ts(3) by simp
    obtain n1 where n1: "\<forall>n\<ge>n1. jvalue n (t @ 125 # rest) = Inr (v, 125 # rest)"
      using Cons.prems(1) [of k v t "125 # rest"] ts(2) kv by (auto simp: delim_def)
    have "jobject (Suc n) (join_items ts @ 125 # rest) acc
            = Inr (JDict (dict_from_pairs (rev acc @ kv # kvs)), rest)" if "n1 \<le> n" for n
    proof -
      have jv: "jvalue (Suc n) (t @ 125 # rest) = Inr (v, 125 # rest)" using n1 that le_SucI by blast
      show ?thesis
        unfolding ts(1) \<open>ts' = []\<close> join_items.simps(2) append_assoc append_Cons True kv
        using jobject_key [OF sk _ jv, of acc] ct by (simp add: skip_ws_nows after_item_close json_ws_def del: jvalue.simps)
    qed
    then show ?thesis by (rule eventually_from_Suc)
  next
    case False
    have ne: "ts' \<noteq> []" using ts(3) False those_Nil_iff by blast
    let ?u = "join_items ts' @ 125 # rest"
    obtain u where "join_items ts' = 34 # u" using join_items_key [OF ts(3) False] ..
    then have sku: "skip_ws ?u = ?u" by (simp add: skip_ws_nows json_ws_def)
    have e1: "\<exists>n1. \<forall>n\<ge>n1. jvalue n (t @ 44 # 32 # ?u) = Inr (v, 44 # 32 # ?u)"
      using Cons.prems(1) [of k v t "44 # 32 # ?u"] ts(2) kv by (auto simp: delim_def)
    have e2: "\<exists>n2. \<forall>n\<ge>n2. jobject n ?u ((k, v) # acc)
                = Inr (JDict (dict_from_pairs (rev ((k, v) # acc) @ kvs)), rest)"
      by (rule Cons.IH) (use Cons.prems(4) ts(3) False in \<open>auto intro: Cons.prems(1)\<close>)
    obtain n0 where n0: "\<forall>n\<ge>n0. jvalue (Suc n) (t @ 44 # 32 # ?u) = Inr (v, 44 # 32 # ?u)
        \<and> jobject n ?u ((k, v) # acc) = Inr (JDict (dict_from_pairs (rev ((k, v) # acc) @ kvs)), rest)
        \<and> jvalue n (t @ 44 # 32 # ?u) = Inr (v, 44 # 32 # ?u)"
      using eventually_max [OF e1 e2] by blast
    have "jobject (Suc n) (join_items ts @ 125 # rest) acc
            = Inr (JDict (dict_from_pairs (rev acc @ kv # kvs)), rest)" if "n0 \<le> n" for n
    proof -
      have jv: "jvalue (Suc n) (t @ 44 # 32 # ?u) = Inr (v, 44 # 32 # ?u)" using n0 that by blast
      have "jobject n ?u ((k, v) # acc) = Inr (JDict (dict_from_pairs (rev ((k, v) # acc) @ kvs)), rest)"
        using n0 that by blast
      then show ?thesis
        unfolding ts(1) join_items_Cons [OF ne] append_assoc append_Cons kv
        using jobject_key [OF sk _ jv, of acc] ct sku
        by (simp add: skip_ws_nows after_item_comma json_ws_def del: jvalue.simps jobject.simps)
    qed
    then show ?thesis by (rule eventually_from_Suc)
  qed
qed

lemma eventually_Suc: "(\<And>n. jvalue (Suc n) s = x) \<Longrightarrow> \<exists>n0. \<forall>n\<ge>n0. jvalue n s = x"
  by (metis Suc_le_D)

lemma jvalue_dumps:
  "json_dumps v = Some t \<Longrightarrow> json_ok v \<Longrightarrow> delim r \<Longrightarrow> \<exists>n0. \<forall>n\<ge>n0. jvalue n (t @ r) = Inr (v, r)"
proof (induction v arbitrary: t r)
  case JNone
  then show ?case by (auto intro!: eventually_Suc simp: pystr_def json_constant_def starts_with_def)
next
  case (JBool b)
  then show ?case by (auto intro!: eventually_Suc simp: pystr_def json_constant_def starts_with_def)
next
  case (JInt k)
  then show ?case using jvalue_int by (auto intro!: eventually_Suc split: if_splits)
next
  case (JFloat x)
  then show ?case by (cases x) (auto intro!: eventually_Suc simp: pystr_def json_constant_def starts_with_def)
next
  case (JStr s)
  then show ?case using jvalue_str by (auto intro!: eventually_Suc)
next
  case (JList vs)
  show ?case
  proof (cases "vs = []")
    case True
    then show ?thesis using JList.prems
      by (auto intro!: eventually_Suc simp: open_container_def skip_ws_nows json_ws_def)
  next
    case False
    obtain ts where ts: "those (map json_dumps vs) = Some ts" "t = 91 # join_items ts @ [93]"
      using JList.prems(1) by (auto split: option.splits)
    have ih: "\<And>v t r. v \<in> set vs \<Longrightarrow> json_dumps v = Some t \<Longrightarrow> delim r \<Longrightarrow>
        \<exists>n0. \<forall>n\<ge>n0. jvalue n (t @ r) = Inr (v, r)"
      using JList.IH JList.prems(2) by (simp add: list_all_iff)
    obtain n0 where n0: "\<forall>n\<ge>n0. jarray n (join_items ts @ 93 # r) [] = Inr (JList vs, r)"
      using jarray_dumps [OF ih ts(1) False, of r "[]"] by auto
    obtain c u where cu: "join_items ts @ 93 # r = c # u" "\<not> json_ws c" "c \<noteq> 93"
      using join_items_first [OF ts(1) False] by blast
    have "jvalue (Suc n) (t @ r) = Inr (JList vs, r)" if "n0 \<le> n" for n
      using jvalue_arr [OF open_container_first [OF cu(2,3)], of n] cu(1) ts(2) n0 that by simp
    then show ?thesis by (rule eventually_from_Suc)
  qed
next
  case (JDict kvs)
  show ?case
  proof (cases "kvs = []")
    case True
    then show ?thesis using JDict.prems
      by (auto intro!: eventually_Suc simp: open_container_def skip_ws_nows json_ws_def)
  next
    case False
    obtain ts where ts: "those (map (\<lambda>(k, v). map_option (\<lambda>t. encode_str k @ pystr '': '' @ t) (json_dumps v)) kvs) = Some ts"
      "t = 123 # join_items ts @ [125]"
      using JDict.prems(1) by (auto split: option.splits)
    have ok: "distinct (map fst kvs)" "list_all (\<lambda>(k, v). str_ok k) kvs"
      using JDict.prems(2) by (auto simp: list_all_iff)
    have ih: "\<And>k v t r. (k, v) \<in> set kvs \<Longrightarrow> json_dumps v = Some t \<Longrightarrow> delim r \<Longrightarrow>
        \<exists>n0. \<forall>n\<ge>n0. jvalue n (t @ r) = Inr (v, r)"
      using JDict.IH JDict.prems(2) by (fastforce simp: list_all_iff)
    have "\<exists>n0. \<forall>n\<ge>n0. jobject n (join_items ts @ 125 # r) []
        = Inr (JDict (dict_from_pairs (rev [] @ kvs)), r)"
      by (rule jobject_dumps [OF _ ts(1) False ok(2)]) (rule ih)
    then obtain n0 where n0: "\<forall>n\<ge>n0. jobject n (join_items ts @ 125 # r) [] = Inr (JDict kvs, r)"
      using dict_from_pairs_distinct [OF ok(1)] by auto
    obtain u where u: "join_items ts = 34 # u" using join_items_key [OF ts(1) False] ..
    have "jvalue (Suc n) (t @ r) = Inr (JDict kvs, r)" if "n0 \<le> n" for n
      using jvalue_obj [OF open_container_first [where c = 34 and close = 125 and u = "u @ 125 # r"], of n]
        u ts(2) n0 that by (simp add: json_ws_def)
    then show ?thesis by (rule eventually_from_Suc)
  qed
qed

subsection \<open>The round trip\<close>

lemma json_loads_dumps: "json_dumps v = Some t \<Longrightarrow> json_ok v \<Longrightarrow> json_loads t = Inr v"
proof -
  assume d: "json_dumps v = Some t" and ok: "json_ok v"
  obtain c t' where ct: "t = c # t'" "\<not> json_ws c" "c \<noteq> 65279" using json_dumps_hd [OF d] by blast
  have "\<exists>n0. \<forall>n\<ge>n0. jvalue n (t @ []) = Inr (v, [])"
    using jvalue_dumps [OF d ok, of "[]"] by (simp add: delim_def)
  then have "jvalue (Suc (length t)) t = Inr (v, [])" using jvalue_fuel_limit by simp
  then show ?thesis using ct by (simp add: json_loads_def skip_ws_nows skip_ws_def del: jvalue.simps)
qed

text \<open>
  The side condition on surrogates of \<open>json_loads_dumps\<close> is needed: a string holding a lone
  high surrogate followed by a lone low surrogate is written as two \<open>\uXXXX\<close> escapes,
  which the decoder joins into one code point above the BMP.
\<close>

theorem surrogate_pair_joined:
  "\<exists>t. json_dumps (JStr [55296, 56320]) = Some t \<and> json_loads t = Inr (JStr [65536])"
  by (simp add: encode_str_def escape_ascii_def u_text_def hex4_text_def hex_digit_def json_simps)

end
