(* ===== verification/Receipt.thy ===== *)
theory Receipt
  imports Views JsonEncode
begin

text \<open>
  \<open>product_receipt_detail\<close> (lines 49--63 of \<open>src/server.py\<close>): the receipt is
  looked up by the \<open>receipt_id\<close> query parameter, its row becomes a dict, and the
  row's \<open>items\<close> text is replaced by \<open>json.loads\<close> of it before the dict is returned.
  The view \<open>product_receipt_detail_query\<close> lives in \<open>commands/views/admin.py\<close>,
  outside \<open>src/\<close>; it is modelled from the spec as a lookup of the receipt by id,
  with SQLite's comparison of the text parameter with the integer id, returning the
  receipt's columns and its \<open>items\<close> column.
\<close>

section \<open>The handler\<close>

text \<open>\<open>product_receipt_detail_query\<close> with \<open>WHERE id = ?\<close>.\<close>

definition select_receipt :: "store \<Rightarrow> sql_val \<Rightarrow> receipt_row list" where
  "select_receipt st p =
     (case sql_key p of None \<Rightarrow> [] | Some i \<Rightarrow> (case receipt_tbl st i of None \<Rightarrow> [] | Some r \<Rightarrow> [r]))"

text \<open>\<open>dict(row)\<close> of \<open>execute_query\<close> (line 20) for the receipt row.\<close>

definition receipt_dict :: "receipt_row \<Rightarrow> (ustr \<times> pyjson) list" where
  "receipt_dict r =
     dict_from_pairs (map (\<lambda>(k, v). (k, py_of_sql v)) (receipt_cols r @ [(pystr ''items'', receipt_items r)]))"

text \<open>\<open>json.loads\<close> on the Python value of the column: a \<open>str\<close> is decoded; \<open>None\<close>
  (a NULL column), an \<open>int\<close> or a \<open>float\<close> raises \<open>TypeError\<close>.\<close>

definition py_json_loads :: "pyjson \<Rightarrow> py_exc + pyjson" where
  "py_json_loads x = (case x of JStr s \<Rightarrow> json_loads s | _ \<Rightarrow> Inl TypeError)"

text \<open>The handler: a missing or empty parameter is a 400, no row a 404; otherwise the
  decoded items replace the text in the row's dict (\<open>receipt_data['items'] = ...\<close>)
  and the dict is the 200 response. An exception of the decoding escapes (a 500).\<close>

definition product_receipt_detail :: "store \<Rightarrow> ustr option \<Rightarrow> py_exc + response" where
  "product_receipt_detail st receipt_id =
     (case receipt_id of
        None \<Rightarrow> Inr (400, error_body ''receipt_id query parameter is required'')
      | Some rid \<Rightarrow>
          if rid = [] then Inr (400, error_body ''receipt_id query parameter is required'')
          else (case select_receipt st (SText rid) of
                  [] \<Rightarrow> Inr (404, error_body ''Product receipt not found'')
                | r # _ \<Rightarrow>
                    (let receipt_data = receipt_dict r in
                     case map_of receipt_data (pystr ''items'') of
                       None \<Rightarrow> Inl KeyError
                     | Some it \<Rightarrow>
                         (case py_json_loads it of
                            Inl e \<Rightarrow> Inl e
                          | Inr v \<Rightarrow> Inr (200, JDict (dict_set receipt_data (pystr ''items'', v)))))))"

lemmas receipt_simps [eval_simps] = select_receipt_def receipt_dict_def py_json_loads_def product_receipt_detail_def

section \<open>Lemmas\<close>

lemma receipt_items_lookup: "map_of (receipt_dict r) (pystr ''items'') = Some (py_of_sql (receipt_items r))"
  by (simp add: receipt_dict_def map_of_dict_from_pairs)

lemma receipt_detail_found:
  assumes "receipt_tbl st i = Some r" "- (2 ^ 63) \<le> i" "i < 2 ^ 63"
  shows "product_receipt_detail st (Some (int_text i)) =
    (case py_json_loads (py_of_sql (receipt_items r)) of
       Inl e \<Rightarrow> Inl e
     | Inr v \<Rightarrow> Inr (200, JDict (dict_set (receipt_dict r) (pystr ''items'', v))))"
  using assms sql_key_int_text_plain [OF assms(2,3)] int_text_nonempty [of i] receipt_items_lookup [of r]
  by (simp add: product_receipt_detail_def select_receipt_def)

text \<open>
  C22 (roundtrip). A receipt whose stored items are the text \<open>json.dumps\<close> writes for a
  value is answered with 200 and that value in the \<open>items\<close> field of the row: the
  spec's round trip of a receipt's serialised items, through the handler.
\<close>

theorem receipt_detail_roundtrip:
  assumes "receipt_tbl st i = Some r" "receipt_items r = SText t" "json_dumps v = Some t" "json_ok v"
    "- (2 ^ 63) \<le> i" "i < 2 ^ 63"
  shows "product_receipt_detail st (Some (int_text i)) =
           Inr (200, JDict (dict_set (receipt_dict r) (pystr ''items'', v)))
         \<and> map_of (dict_set (receipt_dict r) (pystr ''items'', v)) (pystr ''items'') = Some v"
  using receipt_detail_found [OF assms(1,5,6)] json_loads_dumps [OF assms(3,4)] assms(2)
  by (simp add: py_json_loads_def map_of_dict_set)

text \<open>
  C23 (error). The decoding of the items is not guarded: items the decoder rejects make
  the handler raise the decoder's exception, and items that are not text (a NULL column,
  a number) make it raise \<open>TypeError\<close>; either way the request fails with a 500.
\<close>

theorem receipt_items_not_json:
  assumes "receipt_tbl st i = Some r" "- (2 ^ 63) \<le> i" "i < 2 ^ 63"
  shows "(receipt_items r = SText t \<longrightarrow> json_loads t = Inl e \<longrightarrow>
           product_receipt_detail st (Some (int_text i)) = Inl e)
       \<and> ((\<forall>t. receipt_items r \<noteq> SText t) \<longrightarrow>
           product_receipt_detail st (Some (int_text i)) = Inl TypeError)"
proof -
  have "(\<forall>t. x \<noteq> SText t) \<Longrightarrow> py_json_loads (py_of_sql x) = Inl TypeError" for x
    by (cases x) (simp_all add: py_json_loads_def)
  then show ?thesis using receipt_detail_found [OF assms] by (auto simp: py_json_loads_def)
qed

text \<open>
  C24 (error). A missing or empty \<open>receipt_id\<close> is answered with 400, and an id that
  selects no receipt with 404.
\<close>

theorem receipt_detail_status:
  assumes "rid \<noteq> []" "case sql_key (SText rid) of None \<Rightarrow> True | Some i \<Rightarrow> receipt_tbl st i = None"
  shows "product_receipt_detail st None = Inr (400, error_body ''receipt_id query parameter is required'')
       \<and> product_receipt_detail st (Some []) = Inr (400, error_body ''receipt_id query parameter is required'')
       \<and> product_receipt_detail st (Some rid) = Inr (404, error_body ''Product receipt not found'')"
  using assms by (simp add: product_receipt_detail_def select_receipt_def split: option.splits)

end
