(* ===== verification/Spec2Isabelle.thy ===== *)
theory Spec2Isabelle
  imports Liveness DbFaults Requests TransferRace Receipt
begin

text \<open>
  \<^bold>\<open>A verification development of the warehouse service \<open>src/server.py\<close>.\<close>

  \<^bold>\<open>The program.\<close> A Flask application over one SQLite database. Its parts: the data
  access gateway \<open>execute_query\<close> (lines 15--20), which runs one parameterised
  statement per call, each on its own connection and committed on return; four read
  views (\<open>warehouse_home_display\<close>, \<open>warehouse_products\<close>, \<open>product_receipt_detail\<close>,
  \<open>warehouse_fill_capacity\<close>); purchase-order creation (\<open>create_purchase_order\<close>); and
  the inventory transfer (\<open>product_transfer\<close>, lines 111--216), the one handler that
  issues several writes. The handlers share nothing but the store; the store is the
  only state, and it is shared by all requests.

  \<^bold>\<open>Theories.\<close>
  \<^item> \<open>Prelude\<close>: identifier types, the uncaught Python exceptions, the collections
    \<open>gateway_simps\<close>, \<open>frame_simps\<close> and \<open>eval_simps\<close> (the last unfolds the model on
    concrete data, for the witnesses below).
  \<^item> \<open>PyFloat\<close>: Python float arithmetic of line 192: correctly rounded \<open>int / int\<close>
    (\<open>py_truediv\<close>, raising \<open>ZeroDivisionError\<close> and \<open>OverflowError\<close>), \<open>float * 100\<close>
    (\<open>py_mul_pos\<close>), and the exact comparison \<open>float > int\<close> (\<open>py_gt_int\<close>). Doubles are
    significand and exponent, rounded to 53 bits, ties to even, with subnormals.
  \<^item> \<open>PyValues\<close>: Python values as the handlers see them: \<open>pyjson\<close> (a decoded JSON
    body, with unbounded \<open>int\<close>s and signed doubles), Python's truth value
    \<open>py_truthy\<close>, \<open>dict_get\<close>, the binding of a query parameter by \<open>sqlite3\<close>
    (\<open>bind_param\<close>: \<open>OverflowError\<close> beyond 64 bits, the range \<open>sqlite_int\<close> that the
    transfer's ids must also satisfy, \<open>ProgrammingError\<close> for a list or
    object, \<open>UnicodeEncodeError\<close> for a lone surrogate) and \<open>sql_key\<close>, the integer key a
    bound value selects in \<open>WHERE id = ?\<close>, through SQLite's numeric affinity on texts
    (\<open>sql_numeric_text\<close> follows \<open>sqlite3AtoF\<close>: spaces, sign, digits, fraction,
    exponent).
  \<^item> \<open>Store\<close>: the tables as a \<open>record\<close> of maps keyed by their unique keys, and each
    SQL statement of the transfer as one function on the store: \<open>select_warehouses_in\<close>
    (lines 124--127), \<open>select_source_inventory\<close> (145--150), \<open>update_quantity_sub\<close>
    (160--164), \<open>upsert_quantity_add\<close> (167--173), \<open>select_inventory_capacity\<close>
    (178--184), \<open>update_status\<close> (195--199). \<open>inv_qty\<close> reads a quantity (0 without a
    row) and \<open>inv_nonneg\<close> is the data model's invariant \<open>quantity \<ge> 0\<close>.
  \<^item> \<open>WarehouseTransfer\<close>: the request and response records, the error datatype with
    one constructor per early return of the handler (and \<open>Uncaught\<close> for an exception
    that escapes, a 500), \<open>capacity_status\<close> (lines 186--193), \<open>refresh_status\<close> and
    \<open>refresh_all\<close> (the inner loop, 176--199), \<open>check_item\<close> (the guards, 138--157),
    \<open>move_item\<close> (the writes, 159--207), \<open>transfer_one\<close>, \<open>transfer_loop\<close> (the loop,
    137--207) and \<open>product_transfer\<close> (the handler). Every function returns the store
    with its outcome, on error paths too, because every statement that ran has committed.
    The abstract specification is \<open>move_stock\<close>: an item moves its quantity from the
    source to the destination on the quantity view; \<open>status_ok\<close> is the data model's
    requirement that a row's status reflect its quantity.
  \<^item> \<open>GatewayProgram\<close>: the same handler at the grain of \<open>execute_query\<close>: a
    datatype \<open>prog\<close> of the handler's statements (three reads that pass their rows to a
    continuation, three writes), \<open>run_prog\<close> that runs a program alone, and the transfer
    as a program (\<open>refresh_prog\<close>, \<open>move_prog\<close>, \<open>item_prog\<close>, \<open>loop_prog\<close>,
    \<open>transfer_prog\<close>), with \<open>run_transfer_prog\<close>: run alone it is \<open>product_transfer\<close>;
    two more statements, the supplier read and the insert of a purchase order, make
    \<open>create_purchase_order\<close> the program \<open>po_prog\<close> (\<open>run_po_prog\<close>).
  \<^item> \<open>Interleaving\<close>: concurrent requests. \<open>prog_step\<close> runs one statement,
    \<open>conc_step\<close> (an inductive relation) lets any running request take the next step,
    \<open>run_sched\<close> follows a given schedule; \<open>touches_only\<close> bounds the warehouses a
    program writes to. \<open>in_flight\<close> counts the units a running transfer has decremented
    and not yet added back, \<open>staged\<close> is the shape of a transfer program (each decrement
    of a row it has read is directly followed by the upsert of the same amount), and
    \<open>stock_in\<close> sums a product over a set of warehouses.
  \<^item> \<open>Requests\<close>: the two writing endpoints as one datatype \<open>request\<close> (Flask's
    dispatch to \<open>product_transfer\<close> or \<open>create_purchase_order\<close>), \<open>handle_request\<close> and
    its program \<open>req_prog\<close>; \<open>po_safe\<close> says that a program inserts an order only
    after a read that found its supplier. Interleaved orders and transfers conserve stock
    (\<open>conc_requests_conserve\<close>) and keep the purchase orders intact (C21).
  \<^item> \<open>Views\<close>: the other handlers: \<open>warehouse_home_display\<close>, \<open>warehouse_products\<close>
    and \<open>warehouse_fill_capacity\<close> (their view queries, in \<open>commands/views\<close>, are
    parameters), and \<open>create_purchase_order\<close> with its supplier lookup and the insert
    (\<open>purchase_order_insert\<close>, modelled from the spec: next row id, warehouse 1). A
    handler returns its status and the value given to \<open>jsonify\<close>, or the exception it
    lets escape; \<open>po_ok\<close> is the integrity of the \<open>PurchaseOrder\<close> table.
  \<^item> \<open>StatusBounds\<close>: error analysis of the float status over the reals: each
    rounding of \<open>PyFloat\<close> is within half an ulp, no overflow below \<open>2^1023\<close>, and
    \<open>py_gt_int\<close> is the real comparison.
  \<^item> \<open>Liveness\<close>: \<open>prog_sub\<close>, a program and the continuation of its next
    statement (well founded: programs are finite, infinitely branching trees), and
    \<open>finished\<close>, a request that has returned; interleavings terminate because the
    multiset of running programs decreases at each step.
  \<^item> \<open>TransferRace\<close>: the first statements of a one-item transfer program and the run
    of its writes, and the race of two such requests on any store.
  \<^item> \<open>DbFaults\<close>: a statement of \<open>execute_query\<close> that raises \<open>sqlite3.Error\<close>
    (\<open>run_fault\<close>: the failing statement is rolled back by the \<open>with\<close> block of
    \<open>sqlite3.connect\<close>, the earlier ones stay committed) and the transfer handler on such a
    gateway (\<open>product_transfer_fault\<close>: the error of the warehouse query escapes, those of
    the loop reach \<open>except sqlite3.Error\<close>, lines 215--216), and the purchase-order
    handler on it (\<open>create_purchase_order_fault\<close>: the supplier query's error escapes,
    the insert's is answered 400, and a failed order changes nothing); \<open>run_steps\<close> is the first
    \<open>k\<close> statements of a program and \<open>stmt_count\<close> the number it runs alone.
  \<^item> \<open>JsonDecode\<close>: \<open>json.loads\<close> as line 61 calls it, after CPython's C scanner
    (\<open>Modules/_json.c\<close>): \<open>scan_str\<close> (\<open>scanstring_unicode\<close>, escapes and surrogate
    pairs), \<open>scan_number\<close> (\<open>_match_number_unicode\<close>, with the 4300-digit limit of
    \<open>int\<close>), the mutually recursive \<open>jvalue\<close>, \<open>jarray\<close>, \<open>jobject\<close>
    (\<open>scan_once_unicode\<close> and the array and object parsers, whose steps around the
    elements are \<open>open_container\<close>, \<open>after_item\<close> and \<open>obj_key\<close>), \<open>dict_from_pairs\<close> (the
    dict an object builds by \<open>PyDict_SetItem\<close>) and \<open>json_loads\<close>
    (\<open>JSONDecoder.decode\<close> and the BOM check).
  \<^item> \<open>JsonEncode\<close>: the serialisation of a receipt's items, modelled from the spec as
    \<open>json.dumps\<close> with its defaults (\<open>json_dumps\<close>, \<open>escape_ascii\<close>,
    \<open>encode_str\<close>, \<open>join_items\<close>).
  \<^item> \<open>Receipt\<close>: \<open>product_receipt_detail\<close> (lines 49--63) with the receipt lookup
    (\<open>select_receipt\<close>, modelled from the spec), \<open>dict(row)\<close> (\<open>receipt_dict\<close>) and
    \<open>json.loads\<close> on the column's value (\<open>py_json_loads\<close>: \<open>TypeError\<close> unless it is
    text).
  \<^item> this theory: concrete stores and requests, the evaluation of the model on the
    spec's examples behind the findings, and the witnesses of the theorems with
    hypotheses.

  \<^bold>\<open>What is proved.\<close> For the transfer (theory \<open>WarehouseTransfer\<close>): refinement of
  the abstract stock moves on success (C1); the non-negativity invariant on every outcome
  (C2); conservation of each product over the two warehouses and a frame on all others
  (C3); the absence of rollback: a request that fails in the loop fails at one item, the
  items before it all committed and that item's own writes absent or complete (C4); the
  three request-level rejections exactly characterised (C5); rejection of a first item
  before any write (C6); status consistency after success (C7); the response entries
  (C9); and, for every store with a \<open>max_capacity\<close> of 0 where the refresh reads it, a
  500 after both quantity writes have committed (C10). With the float status analysed
  (theory \<open>StatusBounds\<close>): a one-item request that passes the guards succeeds, whole
  stock included, whenever the capacities are positive and the quantities fit in 64 bits
  (C8); the status equals the data model's exact comparison except exactly on the
  boundary, for quantities below \<open>2^44\<close> and capacities below \<open>2^63\<close> (C14), the
  bound \<open>2^44\<close> keeping the two relative errors of \<open>2^-53\<close> below the gap
  \<open>1 / max_capacity\<close> that separates an off-boundary occupancy from the threshold. For
  concurrent requests (theories \<open>Interleaving\<close> and \<open>TransferRace\<close>): the check-then-act
  race, for every store and every one-item request for more than half and at most all
  of the stock: run in sequence the second is refused, interleaved both succeed and the
  source goes negative (C11); interleaved transfers change no warehouse outside their
  requests (C12); interleaved transfers conserve stock once the units in flight are
  counted (C13, proved by showing that every statement preserves \<open>staged\<close> and the
  sum). For the other handlers (theories \<open>Views\<close> and \<open>Requests\<close>): the products view
  answers 404 or 200 with the warehouse's name (C15) and, with the fill-capacity view,
  400 exactly for an absent or empty parameter (C16); purchase-order creation rejects a
  present falsy amount as missing (C17), lets a binding error of the supplier escape as a
  500 while answering 400 for one of the amount (C18), lets the \<open>OverflowError\<close> of an
  amount beyond 64 bits escape (C19), and otherwise appends exactly the new row (C20);
  here, the integrity of the purchase orders holds after every request that writes and
  in every interleaving of orders and transfers (C21). For the receipt detail (theories
  \<open>JsonDecode\<close>, \<open>JsonEncode\<close>, \<open>Receipt\<close>): a receipt whose items were written by
  \<open>json.dumps\<close> is answered with 200 and the value itself in \<open>items\<close> (C22), from the
  round trip \<open>json_loads_dumps\<close> of the decoder with the encoder; items the decoder
  rejects, and items that are not text, make the handler raise (C23); 400 and 404 for a
  missing, empty or unknown id (C24). When a statement raises \<open>sqlite3.Error\<close> (theory
  \<open>DbFaults\<close>), the store is what the earlier statements committed and the stock is
  short by the units the interrupted item had in flight: a failed upsert after the
  source decrement loses the item's quantity (C25). With no failure the handler on the
  failing gateway is \<open>product_transfer\<close> (\<open>transfer_fault_complete\<close>).

  The library lemmas beside these: a request running alone under the interleaving is
  the sequential handler (\<open>conc_single_transfer\<close>, \<open>run_thread_reach\<close>); every
  interleaving is finite and every configuration can run to one where all requests have
  answered (\<open>conc_terminates\<close>, \<open>conc_all_answer\<close>); the JSON scanner's fuel is
  always enough (\<open>json_loads_fuel\<close>), its dicts have distinct keys
  (\<open>json_decoded_keys\<close>) and are the dict of successive assignments
  (\<open>dict_from_pairs_refines\<close>), and a numeral of more than 4300 digits raises
  (\<open>json_loads_int_digits\<close>); the text of a 64-bit id selects that id
  (\<open>sql_key_int_text\<close>). This theory evaluates the model on the spec's examples and
  holds the witnesses.

  \<^bold>\<open>Modelling choices.\<close> Identifiers, quantities, capacities and thresholds are
  Python \<open>int\<close>s (\<open>int\<close>); a JSON field absent from the body is \<open>None\<close>. The store is
  unbounded: a bound parameter must be a 64-bit integer (an id beyond raises
  \<open>OverflowError\<close> before its statement runs, in the transfer as in the other handlers),
  but the conversion of an overflowing sum in \<open>quantity + ?\<close> to \<open>REAL\<close> is not
  modelled, so the results hold for stored quantities below \<open>2^63\<close>. The
  statements of the gateway do not fail except in \<open>DbFaults\<close>, where the statement
  numbered \<open>k\<close> of a transfer raises \<open>sqlite3.Error\<close> (a locked or unavailable database)
  and the \<open>except sqlite3.Error\<close> branch (line 215) is taken; the
  exceptions the handler does not catch are modelled (\<open>KeyError\<close>, and
  \<open>ZeroDivisionError\<close>, \<open>OverflowError\<close> from line 192). Every loop of the handlers
  runs over a finite list and is structural recursion; only the JSON scanner needs fuel.

  \<^bold>\<open>Fuel.\<close> The JSON scanner recurses through nested arrays and objects, and an
  array or object calls the scanner for its first element with the fuel it has and itself
  with one less for the next; \<open>json_loads\<close> gives one more unit than the length of the
  text. Every scan consumes at least one character, so this is enough
  (\<open>json_loads_fuel\<close>).

  \<^bold>\<open>Not modelled.\<close> The SQL texts of the views live in \<open>commands/views\<close>, outside
  \<open>src/\<close>: the three listing views are parameters of their handlers, and the
  purchase-order insert and the receipt lookup are modelled from the spec. The writer of
  a receipt's items is outside \<open>src/\<close> and is modelled as \<open>json.dumps\<close>, except for
  finite floats, whose \<open>repr\<close> is not modelled. The interpreter's recursion limit on
  deeply nested JSON (\<open>RecursionError\<close>) depends on the call stack and is not
  modelled. A \<open>BLOB\<close> items column is not modelled. The transfer's request fields are Python
  \<open>int\<close>s in the model; ids or quantities of other JSON types (floats, strings,
  booleans) would need \<open>REAL\<close> and text values in the store and are not modelled,
  beyond the name lookup they defeat (\<open>transfer_names_miss_commits\<close>). \<open>request.get_json()\<close> on a body
  that is not JSON (a 400 or 415 raised by Flask, depending on its version), the HTTP
  routing of the read endpoints, Flask's JSON encoding and server start-up are not
  modelled. The read-only handlers are not programs of the interleaving: they write
  nothing, so no interleaving with them changes the store or another request's result.

  \<^bold>\<open>Concurrency model.\<close> A step of the interleaving is one SQL statement, the unit
  SQLite makes atomic; Flask's development server (\<open>app.run\<close>, line 220) serves requests
  in threads, and the Python code between two statements touches no shared state, so
  nothing finer needs to be interleaved.
\<close>

subsection \<open>Concrete stores and requests\<close>

definition depot_store :: store where
  "depot_store = empty_store\<lparr>warehouse_tbl := [1 \<mapsto> ''North'', 2 \<mapsto> ''South''],
     product_tbl := [10 \<mapsto> ''Pallet''],
     inventory_tbl := [(1, 10) \<mapsto> \<lparr>quantity = 20, status = GOOD_CAPACITY\<rparr>]\<rparr>"

definition capacity_store :: store where
  "capacity_store = depot_store\<lparr>capacity_tbl :=
     [(1, 10) \<mapsto> \<lparr>max_capacity = 100, capacity_percentage = 15\<rparr>,
      (2, 10) \<mapsto> \<lparr>max_capacity = 50, capacity_percentage = 10\<rparr>]\<rparr>"

definition zero_capacity_store :: store where
  "zero_capacity_store = depot_store\<lparr>capacity_tbl :=
     [(2, 10) \<mapsto> \<lparr>max_capacity = 0, capacity_percentage = 10\<rparr>]\<rparr>"

definition supplier_store :: store where
  "supplier_store = depot_store\<lparr>supplier_tbl := [7]\<rparr>"

definition item :: "pid \<Rightarrow> int \<Rightarrow> transfer_item" where
  "item p q = \<lparr>item_product_id = Some p, item_quantity_needed = Some q\<rparr>"

definition request :: "wid \<Rightarrow> wid \<Rightarrow> transfer_item list \<Rightarrow> transfer_request" where
  "request f t its = \<lparr>from_warehouse = Some f, to_warehouse = Some t, products_to_get = Some its\<rparr>"

definition items_value :: pyjson where
  "items_value = JList [JDict [(pystr ''product_id'', JInt 10), (pystr ''quantity'', JInt 15),
                              (pystr ''note'', JStr [233, 10])]]"

definition receipt_row_of :: "sql_val \<Rightarrow> receipt_row" where
  "receipt_row_of its = \<lparr>receipt_cols = [(pystr ''id'', SInt 5), (pystr ''warehouse_id'', SInt 1)],
     receipt_items = its\<rparr>"

definition receipt_store :: "sql_val \<Rightarrow> store" where
  "receipt_store its = empty_store\<lparr>receipt_tbl := [5 \<mapsto> receipt_row_of its]\<rparr>"

lemmas receipt_demo_simps = items_value_def receipt_row_of_def receipt_store_def empty_store_def

lemmas demo_simps = supplier_store_def depot_store_def capacity_store_def zero_capacity_store_def item_def request_def

subsection \<open>The spec's examples and the findings\<close>

text \<open>
  A schedule for two identical requests of 15 units from a stock of 20: both read the
  warehouses, both read the source row (20 units each time), then each runs to the end.
\<close>

lemma race_schedule:
  "\<exists>st'. run_sched [0, 1, 0, 1, 0, 0, 0, 0, 1, 1, 1, 1]
     ([transfer_prog (request 1 2 [item 10 15]), transfer_prog (request 1 2 [item 10 15])], depot_store) =
   Some ([Ret (Inr [\<lparr>entry_product_id = 10, entry_product_name = ''Pallet'', entry_quantity = 15,
            entry_from = ''North'', entry_to = ''South''\<rparr>]),
          Ret (Inr [\<lparr>entry_product_id = 10, entry_product_name = ''Pallet'', entry_quantity = 15,
            entry_from = ''North'', entry_to = ''South''\<rparr>])], st') \<and> inv_qty st' (1, 10) = -10"
  by (simp add: demo_simps eval_simps gateway_simps)

text \<open>
  The status is computed in floating point, not exactly: with quantity 7,
  capacity 100 and threshold 7 the exact occupancy \<open>100 * 7 / 100 = 7\<close> is not above the
  threshold, yet \<open>(7 / 100) * 100\<close> evaluates to \<open>7.000000000000001\<close> and the row is
  marked \<open>GOOD_CAPACITY\<close>.
\<close>

lemma capacity_status_float_rounding:
  "capacity_status 7 100 7 = Inr GOOD_CAPACITY \<and> \<not> (7 * 100 < (100 * 7 :: int))"
  by (simp add: eval_simps)

text \<open>
  The response entry reads \<open>warehouse_names[str(data['from_warehouse'])]\<close>
  (line 205), keyed by \<open>str\<close> of the ids SQLite returned. When the request's ids do
  not print as those keys, as for the float \<open>1.0\<close> (\<open>'1.0'\<close> against \<open>'1'\<close>), which
  SQLite still matches against the integer ids, the lookup finds nothing: the first item
  is moved and its statuses refreshed, then \<open>KeyError\<close> escapes as a 500 with the move
  committed.
\<close>

lemma transfer_names_miss_commits:
  "\<exists>st'. transfer_loop 1 2 Map.empty depot_store [item 10 5] = (Inl (Uncaught KeyError), st')
      \<and> inv_qty st' (1, 10) = 15 \<and> inv_qty st' (2, 10) = 5"
  by (simp add: demo_simps eval_simps gateway_simps)

text \<open>
  A database failure that loses stock: a transfer of 5 units whose upsert (its fourth statement) raises
  \<open>sqlite3.Error\<close> is answered by the handler's 500 with the source already decremented to
  15 and nothing added at the destination: the 5 units are in no row.
\<close>

theorem transfer_db_error_in_flight_witness:
  "\<exists>st'. product_transfer_fault 3 depot_store (request 1 2 [item 10 5]) = (Inl CaughtDbError, st') \<and>
     inv_qty st' (1, 10) = 15 \<and> inv_qty st' (2, 10) = 0 \<and>
     stock_in {1, 2} st' 10 + 5 = stock_in {1, 2} depot_store 10"
proof -
  let ?P = "transfer_prog (request 1 2 [item 10 5])"
  have "\<exists>st'. product_transfer_fault 3 depot_store (request 1 2 [item 10 5]) = (Inl CaughtDbError, st')"
    by (simp add: demo_simps eval_simps gateway_simps eval_nat_numeral)
  then obtain st' where h: "product_transfer_fault 3 depot_store (request 1 2 [item 10 5]) = (Inl CaughtDbError, st')"
    by blast
  have "3 < stmt_count ?P depot_store \<and> st' = snd (run_steps 3 ?P depot_store) \<and>
      stock_in {1, 2} st' 10 + in_flight (fst (run_steps 3 ?P depot_store)) 10 = stock_in {1, 2} depot_store 10"
    by (rule transfer_db_error_in_flight [OF h]) (simp_all add: demo_simps req_warehouses_def)
  then have st': "st' = snd (run_steps 3 ?P depot_store)"
    and sum: "stock_in {1, 2} st' 10 + in_flight (fst (run_steps 3 ?P depot_store)) 10 = stock_in {1, 2} depot_store 10"
    by blast+
  have fl: "in_flight (fst (run_steps 3 ?P depot_store)) 10 = 5"
    by (simp add: demo_simps eval_simps gateway_simps eval_nat_numeral)
  have "inv_qty st' (1, 10) = 15 \<and> inv_qty st' (2, 10) = 0"
    unfolding st' by (simp add: demo_simps eval_simps gateway_simps eval_nat_numeral)
  then show ?thesis using h fl sum by auto
qed

text \<open>
  C21 (invariant). The integrity of the \<open>PurchaseOrder\<close> table (distinct ids, every
  order's supplier an existing supplier) holds after every request that writes: a
  purchase-order creation, whatever its body, and a transfer, whatever its request; and
  it holds in every configuration reachable by interleaving the statements of any
  purchase-order creations and transfers, although an order's supplier check and its
  insert are separate statements.
\<close>

theorem purchase_orders_integrity:
  assumes "po_ok st"
  shows "po_ok (snd (create_purchase_order st data)) \<and> po_ok (snd (product_transfer st req)) \<and>
    (conc_step\<^sup>*\<^sup>* (map req_prog rs, st) (ts', st') \<longrightarrow> po_ok st')"
proof (intro conjI impI)
  show "po_ok (snd (create_purchase_order st data))" using assms by (rule create_purchase_order_po_ok)
  have "po_ok (st\<lparr>inventory_tbl := X\<rparr>) = po_ok st" for X by (simp add: po_ok_def)
  with assms show "po_ok (snd (product_transfer st req))"
    by (metis product_transfer_inventory_only)
  assume "conc_step\<^sup>*\<^sup>* (map req_prog rs, st) (ts', st')"
  from conc_po_ok [OF this, of st] assms po_safe_req show "po_ok st'" by auto
qed

subsection \<open>Witnesses\<close>

text \<open>
  Each theorem of \<open>WarehouseTransfer\<close> with hypotheses, applied to a concrete store and
  request where the hypotheses hold, the model evaluated by the simplifier.
\<close>

theorem product_transfer_refines_witness:
  "\<exists>es st'. product_transfer depot_store (request 1 2 [item 10 10]) = (Inr es, st') \<and>
     inv_qty st' = fold (move_stock 1 2) [(10, 10)] (inv_qty depot_store)"
proof -
  have "\<exists>es st'. product_transfer depot_store (request 1 2 [item 10 10]) = (Inr es, st')"
    by (simp add: demo_simps eval_simps gateway_simps)
  then obtain es st' where h: "product_transfer depot_store (request 1 2 [item 10 10]) = (Inr es, st')"
    by blast
  have "inv_qty st' = fold (move_stock 1 2) (map item_move [item 10 10]) (inv_qty depot_store)"
    by (rule WarehouseTransfer.product_transfer_refines [OF h]) (simp_all add: request_def)
  with h show ?thesis by (auto simp: item_move_def item_def)
qed

theorem product_transfer_nonneg_witness:
  "inv_nonneg depot_store \<and>
   inv_nonneg (snd (product_transfer depot_store (request 1 2 [item 10 10, item 10 15])))"
proof -
  have nn: "inv_nonneg depot_store" by (simp add: demo_simps eval_simps)
  from WarehouseTransfer.product_transfer_nonneg [OF nn prod.collapse [symmetric]] nn
  show ?thesis by blast
qed

theorem product_transfer_conserves_witness:
  "inv_qty (snd (product_transfer depot_store (request 1 2 [item 10 10]))) (1, 10) +
   inv_qty (snd (product_transfer depot_store (request 1 2 [item 10 10]))) (2, 10) = 20 \<and>
   inv_qty (snd (product_transfer depot_store (request 1 2 [item 10 10]))) (3, 10) = 0"
proof -
  have "inv_qty (snd (product_transfer depot_store (request 1 2 [item 10 10]))) (1, 10) +
      inv_qty (snd (product_transfer depot_store (request 1 2 [item 10 10]))) (2, 10) =
      inv_qty depot_store (1, 10) + inv_qty depot_store (2, 10) \<and>
    ((3::wid) \<notin> {1, 2} \<longrightarrow> inv_qty (snd (product_transfer depot_store (request 1 2 [item 10 10]))) (3, 10) =
      inv_qty depot_store (3, 10))"
    by (rule WarehouseTransfer.product_transfer_conserves [OF prod.collapse [symmetric]])
      (simp_all add: request_def)
  then show ?thesis by (simp add: demo_simps inv_qty_def)
qed

theorem product_transfer_no_rollback_witness:
  "\<exists>st'. product_transfer depot_store (request 1 2 [item 10 5, item 11 1]) = (Inl (ProductNotFound 11), st') \<and>
     inv_qty st' (1, 10) = 15 \<and> inv_qty st' (2, 10) = 5 \<and>
     (\<exists>j < length [item 10 5, item 11 1]. \<exists>es st1.
       transfer_loop 1 2 (map_of (select_warehouses_in depot_store 1 2)) depot_store
         (take j [item 10 5, item 11 1]) = (Inr es, st1) \<and>
       inv_qty st1 = fold (move_stock 1 2) (map item_move (take j [item 10 5, item 11 1])) (inv_qty depot_store) \<and>
       transfer_one 1 2 (map_of (select_warehouses_in depot_store 1 2)) st1
         ([item 10 5, item 11 1] ! j) = (Inl (ProductNotFound 11), st') \<and>
       (inv_qty st' = inv_qty st1 \<or>
        inv_qty st' = move_stock 1 2 (item_move ([item 10 5, item 11 1] ! j)) (inv_qty st1)))"
proof -
  have "\<exists>st'. product_transfer depot_store (request 1 2 [item 10 5, item 11 1]) = (Inl (ProductNotFound 11), st') \<and>
      inv_qty st' (1, 10) = 15 \<and> inv_qty st' (2, 10) = 5"
    by (simp add: demo_simps eval_simps gateway_simps)
  then obtain st' where h: "product_transfer depot_store (request 1 2 [item 10 5, item 11 1]) = (Inl (ProductNotFound 11), st')"
    and q: "inv_qty st' (1, 10) = 15" "inv_qty st' (2, 10) = 5" by blast
  have "\<exists>j < length [item 10 5, item 11 1]. \<exists>es st1.
       transfer_loop 1 2 (map_of (select_warehouses_in depot_store 1 2)) depot_store
         (take j [item 10 5, item 11 1]) = (Inr es, st1) \<and>
       inv_qty st1 = fold (move_stock 1 2) (map item_move (take j [item 10 5, item 11 1])) (inv_qty depot_store) \<and>
       transfer_one 1 2 (map_of (select_warehouses_in depot_store 1 2)) st1
         ([item 10 5, item 11 1] ! j) = (Inl (ProductNotFound 11), st') \<and>
       (inv_qty st' = inv_qty st1 \<or>
        inv_qty st' = move_stock 1 2 (item_move ([item 10 5, item 11 1] ! j)) (inv_qty st1))"
    by (rule WarehouseTransfer.product_transfer_no_rollback [OF h])
      (simp_all add: request_def depot_store_def empty_store_def sqlite_int_def)
  with h q show ?thesis by blast
qed

theorem product_transfer_first_item_rejected_witness:
  "check_item depot_store 1 (item 10 0) = Inl (InvalidQuantity 10) \<and>
   product_transfer depot_store (request 1 2 [item 10 0, item 10 5]) = (Inl (InvalidQuantity 10), depot_store)"
proof -
  have chk: "check_item depot_store 1 (item 10 0) = Inl (InvalidQuantity 10)"
    by (simp add: demo_simps check_item_def)
  have "product_transfer depot_store (request 1 2 [item 10 0, item 10 5]) = (Inl (InvalidQuantity 10), depot_store)"
    by (rule WarehouseTransfer.product_transfer_first_item_rejected
        [where f = 1 and t = 2 and it = "item 10 0" and its = "[item 10 5]", OF _ _ _ _ _ _ _ _ chk])
      (simp_all add: request_def depot_store_def empty_store_def sqlite_int_def)
  with chk show ?thesis ..
qed

theorem product_transfer_status_witness:
  "\<exists>st'. product_transfer capacity_store (request 1 2 [item 10 10]) =
     (Inr [\<lparr>entry_product_id = 10, entry_product_name = ''Pallet'', entry_quantity = 10,
            entry_from = ''North'', entry_to = ''South''\<rparr>], st') \<and>
     status_ok st' 1 10 \<and> status_ok st' 2 10"
proof -
  let ?e = "\<lparr>entry_product_id = 10, entry_product_name = ''Pallet'', entry_quantity = 10,
            entry_from = ''North'', entry_to = ''South''\<rparr>"
  have "\<exists>st'. product_transfer capacity_store (request 1 2 [item 10 10]) = (Inr [?e], st')"
    by (simp add: demo_simps eval_simps gateway_simps)
  then obtain st' where h: "product_transfer capacity_store (request 1 2 [item 10 10]) = (Inr [?e], st')"
    by blast
  have "status_ok st' 1 (entry_product_id ?e) \<and> status_ok st' 2 (entry_product_id ?e)"
    by (rule WarehouseTransfer.product_transfer_status [OF h]) (simp_all add: request_def)
  with h show ?thesis by auto
qed

theorem product_transfer_entries_witness:
  "\<exists>es st'. product_transfer depot_store (request 1 2 [item 10 10]) = (Inr es, st') \<and>
     map item_move [item 10 10] = map (\<lambda>e. (entry_product_id e, entry_quantity e)) es \<and>
     (\<forall>e \<in> set es. warehouse_tbl depot_store 1 = Some (entry_from e) \<and>
        warehouse_tbl depot_store 2 = Some (entry_to e) \<and>
        product_tbl depot_store (entry_product_id e) = Some (entry_product_name e))"
proof -
  have "\<exists>es st'. product_transfer depot_store (request 1 2 [item 10 10]) = (Inr es, st')"
    by (simp add: demo_simps eval_simps gateway_simps)
  then obtain es st' where h: "product_transfer depot_store (request 1 2 [item 10 10]) = (Inr es, st')"
    by blast
  from WarehouseTransfer.product_transfer_entries [OF h] h show ?thesis
    by (fastforce simp: request_def)
qed

theorem transfer_zero_capacity_commits_witness:
  "\<exists>st'. product_transfer zero_capacity_store (request 1 2 [item 10 10]) =
      (Inl (Uncaught ZeroDivisionError), st') \<and> inv_qty st' (1, 10) = 10 \<and> inv_qty st' (2, 10) = 10"
proof -
  have chk: "check_item zero_capacity_store 1 (item 10 10) = Inr (10, 10, ''Pallet'')"
    by (simp add: demo_simps empty_store_def check_item_def select_source_inventory_def sqlite_int_def)
  have "\<exists>st'. product_transfer zero_capacity_store (request 1 2 [item 10 10]) =
      (Inl (Uncaught ZeroDivisionError), st') \<and>
      inv_qty st' = move_stock 1 2 (10, 10) (inv_qty zero_capacity_store)"
    by (rule WarehouseTransfer.transfer_zero_capacity_commits [OF _ _ _ _ _ _ _ _ chk])
      (simp_all add: demo_simps empty_store_def sqlite_int_def)
  moreover have "inv_qty zero_capacity_store (1, 10) = 20" "inv_qty zero_capacity_store (2, 10) = 0"
    by (simp_all add: demo_simps empty_store_def inv_qty_def)
  ultimately show ?thesis by (auto simp: move_stock_def)
qed

text \<open>
  The theorems of \<open>StatusBounds\<close> and \<open>TransferRace\<close> with hypotheses: the whole stock of
  20 units moves between two warehouses with capacity rows, and two requests for 15 of
  those 20 units race.
\<close>

theorem product_transfer_single_item_witness:
  "\<exists>st'. product_transfer capacity_store (request 1 2 [item 10 20]) =
     (Inr [\<lparr>entry_product_id = 10, entry_product_name = ''Pallet'', entry_quantity = 20,
            entry_from = ''North'', entry_to = ''South''\<rparr>], st') \<and>
     inv_qty st' (1, 10) = 0 \<and> inv_qty st' (2, 10) = 20 \<and> status_ok st' 1 10 \<and> status_ok st' 2 10"
proof -
  have "\<exists>st'. product_transfer capacity_store (request 1 2 [item 10 20]) =
     (Inr [\<lparr>entry_product_id = 10, entry_product_name = ''Pallet'', entry_quantity = 20,
            entry_from = ''North'', entry_to = ''South''\<rparr>], st') \<and>
     inv_qty st' = move_stock 1 2 (10, 20) (inv_qty capacity_store) \<and> status_ok st' 1 10 \<and> status_ok st' 2 10"
    by (rule StatusBounds.product_transfer_single_item
        [where it = "item 10 20" and r = "\<lparr>quantity = 20, status = GOOD_CAPACITY\<rparr>"])
      (simp_all add: demo_simps empty_store_def sqlite_int_def inv_qty_def)
  moreover have "inv_qty capacity_store (1, 10) = 20" "inv_qty capacity_store (2, 10) = 0"
    by (simp_all add: demo_simps empty_store_def inv_qty_def)
  ultimately show ?thesis by (auto simp: move_stock_def)
qed

theorem concurrent_transfers_overdraw_witness:
  "(\<exists>st1. product_transfer depot_store (request 1 2 [item 10 15]) =
       (Inr [\<lparr>entry_product_id = 10, entry_product_name = ''Pallet'', entry_quantity = 15,
              entry_from = ''North'', entry_to = ''South''\<rparr>], st1) \<and>
     product_transfer st1 (request 1 2 [item 10 15]) = (Inl (InsufficientInventory 10 5 15), st1)) \<and>
   (\<exists>st'. conc_step\<^sup>*\<^sup>*
      ([transfer_prog (request 1 2 [item 10 15]), transfer_prog (request 1 2 [item 10 15])], depot_store)
      ([Ret (Inr [\<lparr>entry_product_id = 10, entry_product_name = ''Pallet'', entry_quantity = 15,
                   entry_from = ''North'', entry_to = ''South''\<rparr>]),
        Ret (Inr [\<lparr>entry_product_id = 10, entry_product_name = ''Pallet'', entry_quantity = 15,
                   entry_from = ''North'', entry_to = ''South''\<rparr>])], st') \<and>
      inv_qty st' (1, 10) = -10 \<and> inv_qty st' (2, 10) = 30 \<and> inv_qty st' (1, 10) < 0)"
  using TransferRace.concurrent_transfers_overdraw
    [where req = "request 1 2 [item 10 15]" and st = depot_store and it = "item 10 15"
      and f = 1 and t = 2 and fn = "''North''" and tn = "''South''" and p = 10 and q = 15
      and r = "\<lparr>quantity = 20, status = GOOD_CAPACITY\<rparr>" and pn = "''Pallet''"
      and e = "\<lparr>entry_product_id = 10, entry_product_name = ''Pallet'', entry_quantity = 15,
               entry_from = ''North'', entry_to = ''South''\<rparr>"]
  by (simp add: demo_simps empty_store_def sqlite_int_def inv_qty_def)

theorem conc_transfers_frame_witness:
  "\<exists>ts' st'. conc_step\<^sup>*\<^sup>* (map transfer_prog [request 1 2 [item 10 15], request 1 2 [item 10 15]], depot_store) (ts', st') \<and>
     inv_qty st' (1, 10) = -10 \<and> inventory_tbl st' (3, 10) = inventory_tbl depot_store (3, 10)"
proof -
  obtain ts' st' where r: "run_sched [0, 1, 0, 1, 0, 0, 0, 0, 1, 1, 1, 1]
     ([transfer_prog (request 1 2 [item 10 15]), transfer_prog (request 1 2 [item 10 15])], depot_store) =
     Some (ts', st')" and q: "inv_qty st' (1, 10) = -10"
    using race_schedule by blast
  have reach: "conc_step\<^sup>*\<^sup>* (map transfer_prog [request 1 2 [item 10 15], request 1 2 [item 10 15]], depot_store) (ts', st')"
    using run_sched_reach [OF r] by simp
  have "inventory_tbl st' (3, 10) = inventory_tbl depot_store (3, 10)"
    by (rule Interleaving.conc_transfers_frame [OF reach]) (simp add: req_warehouses_def request_def)
  with reach q show ?thesis by blast
qed

theorem conc_transfers_conserve_witness:
  "\<exists>ts' st'. run_sched [0, 1, 0, 0]
       (map transfer_prog [request 1 2 [item 10 15], request 1 2 [item 10 15]], depot_store) =
     Some (ts', st') \<and> in_flight_all ts' 10 = 15 \<and> stock_in {1, 2} st' 10 = 5 \<and>
     stock_in {1, 2} depot_store 10 = 20"
proof -
  have "\<exists>ts' st'. run_sched [0, 1, 0, 0]
       (map transfer_prog [request 1 2 [item 10 15], request 1 2 [item 10 15]], depot_store) =
     Some (ts', st') \<and> in_flight_all ts' 10 = 15"
    by (simp add: demo_simps eval_simps gateway_simps in_flight_all_def)
  then obtain ts' st' where r: "run_sched [0, 1, 0, 0]
       (map transfer_prog [request 1 2 [item 10 15], request 1 2 [item 10 15]], depot_store) =
     Some (ts', st')" and fl: "in_flight_all ts' 10 = 15"
    by blast
  have s0: "stock_in {1, 2} depot_store 10 = 20"
    by (simp add: stock_in_def demo_simps eval_simps)
  have "stock_in {1, 2} st' 10 + in_flight_all ts' 10 = stock_in {1, 2} depot_store 10"
    by (rule Interleaving.conc_transfers_conserve [OF run_sched_reach [OF r]])
      (simp_all add: req_warehouses_def request_def)
  with r fl s0 show ?thesis by auto
qed

theorem capacity_status_exact_witness:
  "(0::int) \<le> 123456789 \<and> (123456789::int) < 2 ^ 44 \<and> (0::int) < 1000000007 \<and>
   (1000000007::int) < 2 ^ 63 \<and> 100 * 123456789 \<noteq> (12::int) * 1000000007 \<and>
   capacity_status 123456789 1000000007 12 = Inr GOOD_CAPACITY"
  using StatusBounds.capacity_status_exact [of 123456789 1000000007 12] by simp

theorem warehouse_products_lookup_witness:
  "- (2 ^ 63) \<le> (1::int) \<and> (1::int) < 2 ^ 63 \<and>
   warehouse_products (\<lambda>st p. []) depot_store (Some (int_text 1)) =
     (200, JDict [(pystr ''warehouse_name'', JStr (pystr ''North'')), (pystr ''products'', JList [])])"
  using Views.warehouse_products_lookup [of 1 "\<lambda>st p. []" depot_store] by (simp add: depot_store_def)

theorem purchase_order_falsy_amount_witness:
  "\<not> py_truthy (JInt 0) \<and> create_purchase_order supplier_store (po_request (JInt 7) (JInt 0)) =
     (Inr (400, error_body ''Supplier ID and Total amount are required''), supplier_store)"
  using Views.purchase_order_falsy_amount [of "JInt 0" supplier_store "JInt 7"] by simp

theorem purchase_order_bind_errors_witness:
  "create_purchase_order supplier_store (po_request (JList [JInt 7]) (JInt 5)) =
     (Inl ProgrammingError, supplier_store) \<and>
   create_purchase_order supplier_store (po_request (JInt 7) (JList [JInt 5])) =
     (Inr (400, exc_body ProgrammingError), supplier_store)"
  using Views.purchase_order_bind_errors [of "[JInt 7]" "JInt 5" "[JInt 5]" 7 supplier_store]
  by (simp add: supplier_store_def)

theorem purchase_order_amount_overflow_witness:
  "create_purchase_order supplier_store (po_request (JInt 7) (JInt (2 ^ 63))) =
     (Inl OverflowError, supplier_store)"
  using Views.purchase_order_amount_overflow [of 7 supplier_store "2 ^ 63"]
  by (simp add: supplier_store_def)

theorem purchase_order_created_witness:
  "fst (create_purchase_order supplier_store (po_request (JInt 7) (JInt 250))) =
     Inr (201, po_json 1 \<lparr>po_supplier = SInt 7, po_total = SInt 250, po_warehouse = 1\<rparr>)"
  using Views.purchase_order_created [of 7 supplier_store 250]
  by (simp add: supplier_store_def depot_store_def empty_store_def next_po_id_def Let_def)

theorem purchase_orders_integrity_witness:
  "po_ok supplier_store \<and>
   po_ok (snd (create_purchase_order supplier_store (po_request (JInt 7) (JInt 250)))) \<and>
   po_ok (snd (product_transfer supplier_store (request 1 2 [item 10 5]))) \<and>
   (\<exists>ts' st'. run_sched [0, 1, 0, 1] (map req_prog [OrderReq (po_request (JInt 7) (JInt 250)),
        OrderReq (po_request (JInt 7) (JInt 90))], supplier_store) = Some (ts', st') \<and>
      po_ok st' \<and> map fst (purchase_order_tbl st') = [1, 2])"
proof -
  let ?rs = "[OrderReq (po_request (JInt 7) (JInt 250)), OrderReq (po_request (JInt 7) (JInt 90))]"
  have ok: "po_ok supplier_store" by (simp add: po_ok_def supplier_store_def depot_store_def empty_store_def)
  have "\<exists>ts' st'. run_sched [0, 1, 0, 1] (map req_prog ?rs, supplier_store) = Some (ts', st') \<and>
      map fst (purchase_order_tbl st') = [1, 2]"
    by (simp add: demo_simps eval_simps)
  then obtain ts' st' where r: "run_sched [0, 1, 0, 1] (map req_prog ?rs, supplier_store) = Some (ts', st')"
    and ids: "map fst (purchase_order_tbl st') = [1, 2]" by (elim exE conjE)
  have "po_ok (snd (create_purchase_order supplier_store (po_request (JInt 7) (JInt 250)))) \<and>
      po_ok (snd (product_transfer supplier_store (request 1 2 [item 10 5]))) \<and>
      (conc_step\<^sup>*\<^sup>* (map req_prog ?rs, supplier_store) (ts', st') \<longrightarrow> po_ok st')"
    by (rule purchase_orders_integrity [OF ok])
  with ok r ids run_sched_reach [OF r] show ?thesis by auto
qed

theorem receipt_detail_roundtrip_witness:
  "receipt_tbl (receipt_store (SText (the (json_dumps items_value)))) 5
     = Some (receipt_row_of (SText (the (json_dumps items_value))))
   \<and> receipt_items (receipt_row_of (SText (the (json_dumps items_value)))) = SText (the (json_dumps items_value))
   \<and> json_dumps items_value = Some (the (json_dumps items_value)) \<and> json_ok items_value
   \<and> product_receipt_detail (receipt_store (SText (the (json_dumps items_value)))) (Some (int_text 5))
     = Inr (200, JDict [(pystr ''id'', JInt 5), (pystr ''warehouse_id'', JInt 1), (pystr ''items'', items_value)])"
  using receipt_detail_roundtrip [of "receipt_store (SText (the (json_dumps items_value)))" 5
      "receipt_row_of (SText (the (json_dumps items_value)))" "the (json_dumps items_value)" items_value]
  by (simp add: receipt_demo_simps json_simps eval_simps str_ok_def encode_str_def escape_ascii_def
      u_text_def hex4_text_def hex_digit_def)

theorem receipt_items_not_json_witness:
  "receipt_tbl (receipt_store (SText (pystr ''[1,]''))) 5 = Some (receipt_row_of (SText (pystr ''[1,]'')))
   \<and> json_loads (pystr ''[1,]'') = Inl JSONDecodeError
   \<and> product_receipt_detail (receipt_store (SText (pystr ''[1,]''))) (Some (int_text 5)) = Inl JSONDecodeError"
  using receipt_items_not_json [of "receipt_store (SText (pystr ''[1,]''))" 5
      "receipt_row_of (SText (pystr ''[1,]''))" "pystr ''[1,]''" JSONDecodeError]
  by (simp add: receipt_demo_simps json_simps eval_simps)

theorem receipt_detail_status_witness:
  "product_receipt_detail (receipt_store SNull) (Some (pystr ''9'')) = Inr (404, error_body ''Product receipt not found'')"
  using receipt_detail_status [of "pystr ''9''" "receipt_store SNull"]
  by (simp add: receipt_demo_simps eval_simps)

end
